theory Spec2Isabelle
  imports Main "HOL-Library.List_Lexorder"
begin

section \<open>Data model\<close>

text \<open>
  A version is its sequence of numeric release segments, compared segment by segment
  (the lexicographic order on lists). A timestamp is a clock reading.
\<close>

type_synonym version = "nat list"
type_synonym timestamp = nat

datatype diff_status = Unknown | Up_to_date | Patch | Minor | Major

text \<open>
  One row of the \<open>PackageVersion\<close> table. The admin module lists the fields it shows
  (\<open>readonly_fields\<close> in \<open>admin.py\<close>); their types follow section 3 of the specification.
\<close>

record package_version =
  package_name :: string
  is_editable :: bool
  is_parseable :: bool
  current_version :: "version option"
  next_version :: "version option"
  latest_version :: "version option"
  raw :: string
  licence :: "string option"
  python_support :: "string set"
  supports_py3 :: bool
  diff_status :: diff_status
  checked_pypi_at :: "timestamp option"
  url :: "string option"

text \<open>
  A parsed line of the requirements file. \<open>name\<close> and \<open>uri\<close> may be absent
  (\<open>local\<close> falls back from one to the other).
\<close>

record requirement =
  name :: "string option"
  pinned :: "string option"
  editable :: bool
  uri :: "string option"

text \<open>
  The exceptions that the modelled code raises or catches. \<open>TypeError\<close> is Python's
  answer to an ordering comparison with \<open>None\<close>.
\<close>

datatype exn = IntegrityError | DoesNotExist | PackageNotFound | IndexUnavailable | TypeError

text \<open>What the index returns for one package name.\<close>

record index_data =
  versions :: "string list"
  index_licence :: "string option"
  classifiers :: "string set"
  index_url :: "string option"
  metadata :: string

text \<open>
  The collaborators outside the synchronisation code (the module \<open>package_monitor.pypi\<close>
  and the version class are not among the sources): the index client, the version
  parser (an unparseable string gives \<open>None\<close>), the derivation of Python 3 support
  from the classifiers, and the printed form of a version. They are parameters of every
  operation that uses them.
\<close>

record pypi =
  query :: "string \<Rightarrow> exn + index_data"
  parse_version :: "string \<Rightarrow> version option"
  py3_support :: "string set \<Rightarrow> bool"
  render_version :: "version \<Rightarrow> string"

text \<open>Log records: the level and the message with its arguments.\<close>

datatype level = DEBUG | INFO | ERROR

datatype message =
    Package_added "string option"
  | Package_already_exists "string option"
  | Loading_requirements
  | Creating_new_package requirement
  | Skipping_missing_package requirement
  | Fetching_latest_data
  | Skipping_editable_package package_version
  | Updated_package package_version
  | Update_failed package_version exn
  | Deleted_all_packages
  | Ignoring_version_update string

text \<open>
  The state the commands act on: the rows of the table in storage order, the log, the
  clock that \<open>tz_now()\<close> reads, and the names the index has been asked about.
\<close>

record world =
  table :: "package_version list"
  logs :: "(level \<times> message) list"
  clock :: timestamp
  requests :: "string list"

definition emit :: "level \<Rightarrow> message \<Rightarrow> world \<Rightarrow> world" where
  "emit lvl msg w = w\<lparr>logs := logs w @ [(lvl, msg)]\<rparr>"

section \<open>The record store\<close>

text \<open>
  The table of \<open>PackageVersion\<close> rows behind Django's object manager. As in section 2
  of the specification the store is keyed by package name, which is unique.
\<close>

text \<open>
  \<open>PackageVersion.objects.get(package_name=name)\<close>: the row of that name, or
  \<open>DoesNotExist\<close>. Looking up an absent name (Python's \<open>None\<close>) finds nothing.
  Names are unique in the table, so the first match is the only one.
\<close>

definition objects_get :: "string option \<Rightarrow> package_version list \<Rightarrow> exn + package_version" where
  "objects_get key rows =
     (case key of
        None \<Rightarrow> Inl DoesNotExist
      | Some n \<Rightarrow>
          (case find (\<lambda>r. package_name r = n) rows of
             None \<Rightarrow> Inl DoesNotExist
           | Some r \<Rightarrow> Inr r))"

text \<open>\<open>PackageVersion.objects.exclude(is_editable=True)\<close>.\<close>

definition exclude_editable :: "package_version list \<Rightarrow> package_version list" where
  "exclude_editable rows = filter (\<lambda>r. \<not> is_editable r) rows"

text \<open>
  \<open>save()\<close> on an object that was loaded from the table writes its fields to the row
  of its name; an object whose row is gone is inserted.
\<close>

definition save :: "package_version \<Rightarrow> package_version list \<Rightarrow> package_version list" where
  "save pv rows =
     (if package_name pv \<in> set (map package_name rows)
      then map (\<lambda>r. if package_name r = package_name pv then pv else r) rows
      else rows @ [pv])"

section \<open>The version model and the diff classifier\<close>

text \<open>
  Modelled from the spec: the diff classifier of the module \<open>package_monitor.pypi\<close>,
  which is not among the sources. Section 4.4: editable, or either version missing, is
  unknown; equal versions are up to date; otherwise the first differing leading segment
  decides.
\<close>

definition classify :: "version option \<Rightarrow> version option \<Rightarrow> bool \<Rightarrow> diff_status" where
  "classify current latest ed =
     (if ed then Unknown
      else case latest of
        None \<Rightarrow> Unknown
      | Some l \<Rightarrow>
          (case current of
             None \<Rightarrow> Unknown
           | Some c \<Rightarrow>
               if c = l then Up_to_date
               else if take 1 c \<noteq> take 1 l then Major
               else if take 2 c \<noteq> take 2 l then Minor
               else Patch))"

text \<open>
  Modelled from the spec: the maximum of the published versions (section 3,
  \<open>latest_version\<close>), computed by the absent module \<open>package_monitor.pypi\<close>.
\<close>

definition latest_of :: "version list \<Rightarrow> version option" where
  "latest_of vs = (case vs of [] \<Rightarrow> None | v # rest \<Rightarrow> Some (fold max rest v))"

text \<open>
  Modelled from the spec: the smallest published version strictly greater than the
  current one, none when there is no current version (section 3, \<open>next_version\<close>),
  computed by the absent module \<open>package_monitor.pypi\<close>.
\<close>

definition next_of :: "version option \<Rightarrow> version list \<Rightarrow> version option" where
  "next_of current vs =
     (case current of
        None \<Rightarrow> None
      | Some c \<Rightarrow>
          (case filter (\<lambda>v. c < v) vs of
             [] \<Rightarrow> None
           | v # rest \<Rightarrow> Some (fold min rest v)))"

section \<open>The model class\<close>

text \<open>
  \<open>models.py\<close> (the class \<open>PackageVersion\<close>, its constructor from a requirement and its
  method \<open>update_from_pypi\<close>) is not among the sources.
\<close>

text \<open>
  Modelled from the spec: the constructor \<open>PackageVersion(requirement=r)\<close> of the absent
  \<open>models.py\<close>. Section 4.5, local reconciliation: a created record takes
  \<open>is_editable\<close> from the requirement and \<open>current_version\<close> from the pinned version,
  parsed, falling back to \<open>is_parseable = False\<close>; the index-derived fields start unset
  and the status unknown (section 3).
\<close>

definition new_package_version :: "pypi \<Rightarrow> string \<Rightarrow> requirement \<Rightarrow> package_version" where
  "new_package_version api n r =
     (let cur = (case pinned r of None \<Rightarrow> None | Some s \<Rightarrow> parse_version api s) in
      \<lparr> package_name = n,
        is_editable = editable r,
        is_parseable = (pinned r = None \<or> cur \<noteq> None),
        current_version = cur,
        next_version = None,
        latest_version = None,
        raw = [],
        licence = None,
        python_support = {},
        supports_py3 = False,
        diff_status = Unknown,
        checked_pypi_at = None,
        url = None \<rparr>)"

text \<open>
  Modelled from the spec: \<open>PackageVersion(requirement=r).save()\<close>, the store's
  \<open>create(fields) -> Record\<close> of section 6 on the absent model class. Creation returns
  the created record, which is what \<open>create_package_version\<close> hands on and \<open>local\<close>
  tests. Creation fails when the name exists. The name is the record's required unique
  identifier (section 3), so a requirement without one cannot be stored either; the
  store reports both as \<open>IntegrityError\<close>.
\<close>

definition save_new ::
  "pypi \<Rightarrow> requirement \<Rightarrow> world \<Rightarrow> exn + (package_version option \<times> world)" where
  "save_new api r w =
     (case name r of
        None \<Rightarrow> Inl IntegrityError
      | Some n \<Rightarrow>
          if n \<in> set (map package_name (table w)) then Inl IntegrityError
          else Inr (Some (new_package_version api n r),
                    w\<lparr>table := table w @ [new_package_version api n r]\<rparr>))"

text \<open>
  Modelled from the spec: the fields that the absent method \<open>update_from_pypi\<close> sets from
  the index data. Section 4.5, remote reconciliation: \<open>latest_version\<close> is the maximum of
  the versions that parse, \<open>next_version\<close> the least one above \<open>current_version\<close>; the
  licence, the Python support, the URL and the raw metadata are taken over,
  \<open>checked_pypi_at = now\<close>, and \<open>diff_status\<close> is recomputed. \<open>current_version\<close> stays
  as the manifest gave it (section 9).
\<close>

definition refreshed :: "pypi \<Rightarrow> index_data \<Rightarrow> timestamp \<Rightarrow> package_version \<Rightarrow> package_version" where
  "refreshed api d t pv =
     (let vs = List.map_filter (parse_version api) (versions d);
          latest = latest_of vs
      in pv\<lparr> next_version := next_of (current_version pv) vs,
              latest_version := latest,
              raw := metadata d,
              licence := index_licence d,
              python_support := classifiers d,
              supports_py3 := py3_support api (classifiers d),
              diff_status := classify (current_version pv) latest (is_editable pv),
              checked_pypi_at := Some t,
              url := index_url d \<rparr>)"

text \<open>
  Modelled from the spec: the absent method \<open>update_from_pypi\<close>. Section 4.5: fetch the
  index data for the record's name; on failure (\<open>PackageNotFound\<close>, \<open>IndexUnavailable\<close>)
  nothing has been written; on success all fields are set and persisted together
  (section 5). The request itself is recorded in \<open>requests\<close>.
\<close>

definition update_from_pypi ::
  "pypi \<Rightarrow> package_version \<Rightarrow> world \<Rightarrow> (exn + package_version) \<times> world" where
  "update_from_pypi api pv w =
     (let w1 = w\<lparr>requests := requests w @ [package_name pv]\<rparr> in
      case query api (package_name pv) of
        Inl e \<Rightarrow> (Inl e, w1)
      | Inr d \<Rightarrow>
          (let pv' = refreshed api d (clock w1) pv
           in (Inr pv', w1\<lparr>table := save pv' (table w1)\<rparr>)))"

section \<open>The management command \<open>refresh_packages\<close>\<close>

subsection \<open>\<open>create_package_version\<close> and \<open>local\<close>\<close>

text \<open>
  \<open>create_package_version\<close> returns what \<open>save()\<close> returned, or \<open>None\<close> after an
  \<open>IntegrityError\<close>; any other exception propagates.
\<close>

definition create_package_version ::
  "pypi \<Rightarrow> requirement \<Rightarrow> world \<Rightarrow> exn + (package_version option \<times> world)" where
  "create_package_version api r w =
     (case save_new api r w of
        Inr (pv, w') \<Rightarrow> Inr (pv, emit INFO (Package_added (name r)) w')
      | Inl IntegrityError \<Rightarrow> Inr (None, emit INFO (Package_already_exists (name r)) w)
      | Inl e \<Rightarrow> Inl e)"

text \<open>\<open>r.name or r.uri\<close>: the name unless it is \<open>None\<close> or empty.\<close>

definition name_or_uri :: "requirement \<Rightarrow> string option" where
  "name_or_uri r =
     (case name r of
        None \<Rightarrow> uri r
      | Some n \<Rightarrow> if n = [] then uri r else Some n)"

text \<open>
  The loop of \<open>local\<close> over the parsed requirements, with the list \<open>packages\<close> built so
  far. Only \<open>DoesNotExist\<close> is caught around the lookup.
\<close>

fun local_loop ::
  "pypi \<Rightarrow> requirement list \<Rightarrow> package_version list \<Rightarrow> world
     \<Rightarrow> exn + (package_version list \<times> world)" where
  "local_loop api [] packages w = Inr (packages, w)"
| "local_loop api (r # rs) packages w =
     (case create_package_version api r (emit DEBUG (Creating_new_package r) w) of
        Inl e \<Rightarrow> Inl e
      | Inr (Some pv, w1) \<Rightarrow> local_loop api rs (packages @ [pv]) w1
      | Inr (None, w1) \<Rightarrow>
          (case objects_get (name_or_uri r) (table w1) of
             Inr pv \<Rightarrow> local_loop api rs (packages @ [pv]) w1
           | Inl DoesNotExist \<Rightarrow>
               local_loop api rs packages (emit ERROR (Skipping_missing_package r) w1)
           | Inl e \<Rightarrow> Inl e))"

text \<open>\<open>local\<close>, given the requirements that \<open>parse\<close> read from the file.\<close>

definition local ::
  "pypi \<Rightarrow> requirement list \<Rightarrow> world \<Rightarrow> exn + (package_version list \<times> world)" where
  "local api requirements w = local_loop api requirements [] (emit INFO Loading_requirements w)"

subsection \<open>\<open>remote\<close>\<close>

text \<open>
  \<open>results\<close> is a \<open>defaultdict(list)\<close> keyed by diff status while the loop runs; the
  key \<open>'refreshed_at'\<close>, which is no diff status, is added at the end. The returned
  dictionary is therefore the status groups together with the timestamp.
\<close>

type_synonym results = "diff_status \<rightharpoonup> package_version list"

record summary =
  groups :: results
  refreshed_at :: timestamp

text \<open>\<open>results[key].append(pv)\<close> on a \<open>defaultdict(list)\<close>.\<close>

definition append_result :: "diff_status \<Rightarrow> package_version \<Rightarrow> results \<Rightarrow> results" where
  "append_result key pv results =
     results(key \<mapsto> (case results key of None \<Rightarrow> [] | Some pvs \<Rightarrow> pvs) @ [pv])"

text \<open>\<open>if not packages\<close>: \<open>None\<close> and the empty list both select the default set.\<close>

definition selected :: "package_version list option \<Rightarrow> world \<Rightarrow> package_version list" where
  "selected packages w =
     (case packages of
        None \<Rightarrow> exclude_editable (table w)
      | Some [] \<Rightarrow> exclude_editable (table w)
      | Some pvs \<Rightarrow> pvs)"

text \<open>The loop of \<open>remote\<close>: every exception of \<open>update_from_pypi\<close> is caught and logged.\<close>

fun remote_loop ::
  "pypi \<Rightarrow> package_version list \<Rightarrow> results \<Rightarrow> world \<Rightarrow> results \<times> world" where
  "remote_loop api [] results w = (results, w)"
| "remote_loop api (pv # pvs) results w =
     (if is_editable pv
      then remote_loop api pvs results (emit DEBUG (Skipping_editable_package pv) w)
      else
        (case update_from_pypi api pv w of
           (Inr pv', w') \<Rightarrow>
             remote_loop api pvs (append_result (diff_status pv') pv' results)
               (emit DEBUG (Updated_package pv') w')
         | (Inl e, w') \<Rightarrow>
             remote_loop api pvs results (emit ERROR (Update_failed pv e) w')))"

definition remote :: "pypi \<Rightarrow> package_version list option \<Rightarrow> world \<Rightarrow> summary \<times> world" where
  "remote api packages w =
     (let w0 = emit INFO Fetching_latest_data w;
          (results, w') = remote_loop api (selected packages w0) Map.empty w0
      in (\<lparr> groups = results, refreshed_at = clock w' \<rparr>, w'))"

subsection \<open>\<open>clean\<close>\<close>

definition clean :: "world \<Rightarrow> world" where
  "clean w = emit INFO Deleted_all_packages (w\<lparr>table := []\<rparr>)"

section \<open>The admin module\<close>

text \<open>
  The bulk action \<open>check_pypi\<close>: no exception is caught, so the first failing update
  ends the action with what was written so far.
\<close>

fun check_pypi :: "pypi \<Rightarrow> package_version list \<Rightarrow> world \<Rightarrow> (exn + unit) \<times> world" where
  "check_pypi api [] w = (Inr (), w)"
| "check_pypi api (p # ps) w =
     (if is_editable p
      then check_pypi api ps (emit DEBUG (Ignoring_version_update (package_name p)) w)
      else
        (case update_from_pypi api p w of
           (Inr p', w') \<Rightarrow> check_pypi api ps w'
         | (Inl e, w') \<Rightarrow> (Inl e, w')))"

text \<open>\<open>html_list\<close>, on the printed items.\<close>

definition html_list :: "string list option \<Rightarrow> string" where
  "html_list data =
     (case data of
        None \<Rightarrow> []
      | Some vals \<Rightarrow> ''<ul>'' @ concat (map (\<lambda>val. ''<li>'' @ val @ ''</li>'') vals) @ ''</ul>'')"

text \<open>
  \<open>PackageVersionAdmin.available_updates\<close>, a read-only field of the change form of any
  record: \<open>pypi.Package(obj.package_name).all_versions()\<close> asks the index for the
  versions of the record's name, whatever \<open>obj.is_editable\<close> is, and the versions above
  \<open>obj.current_version\<close> are listed. A failure of the index propagates; comparing a
  version with a missing \<open>current_version\<close> raises \<open>TypeError\<close>.
\<close>

definition available_updates :: "pypi \<Rightarrow> package_version \<Rightarrow> world \<Rightarrow> (exn + string) \<times> world" where
  "available_updates api obj w =
     (let w1 = w\<lparr>requests := requests w @ [package_name obj]\<rparr> in
      case query api (package_name obj) of
        Inl e \<Rightarrow> (Inl e, w1)
      | Inr d \<Rightarrow>
          (let all_versions = List.map_filter (parse_version api) (versions d) in
           case current_version obj of
             None \<Rightarrow>
               (if all_versions = [] then Inr (html_list (Some [])) else Inl TypeError, w1)
           | Some c \<Rightarrow>
               (Inr (html_list (Some (map (render_version api)
                                       (filter (\<lambda>v. c < v) all_versions)))), w1)))"

text \<open>
  \<open>UpdateAvailableListFilter.queryset\<close>. \<open>value\<close> is the request parameter, if any.
  An SQL comparison of two columns holds only when neither is null.
\<close>

definition column_eq :: "version option \<Rightarrow> version option \<Rightarrow> bool" where
  "column_eq a b = (a \<noteq> None \<and> b \<noteq> None \<and> a = b)"

definition queryset :: "string option \<Rightarrow> package_version list \<Rightarrow> package_version list" where
  "queryset value qs =
     (if value = Some ''-1'' then filter (\<lambda>p. latest_version p = None) qs
      else if value = Some ''0'' then
        filter (\<lambda>p. current_version p \<noteq> None \<and> latest_version p \<noteq> None
                    \<and> column_eq (latest_version p) (current_version p)) qs
      else if value = Some ''1'' then
        filter (\<lambda>p. \<not> column_eq (latest_version p) (current_version p))
          (filter (\<lambda>p. current_version p \<noteq> None \<and> latest_version p \<noteq> None) qs)
      else qs)"

text \<open>The values that \<open>lookups\<close> offers.\<close>

definition lookups :: "(string \<times> string) list" where
  "lookups = [(''1'', ''Yes''), (''0'', ''No''), (''-1'', ''Unknown'')]"

section \<open>Notions used in the statements\<close>

text \<open>
  The world after \<open>create_package_version\<close>, in closed form: a new row and the message
  "added" when the requirement has a name that is not stored yet, the message "already
  exists" otherwise.
\<close>

definition created :: "pypi \<Rightarrow> requirement \<Rightarrow> world \<Rightarrow> world" where
  "created api r w =
     (case name r of
        None \<Rightarrow> emit INFO (Package_already_exists (name r)) w
      | Some n \<Rightarrow>
          if n \<in> set (map package_name (table w))
          then emit INFO (Package_already_exists (name r)) w
          else emit INFO (Package_added (name r))
                 (w\<lparr>table := table w @ [new_package_version api n r]\<rparr>))"

text \<open>
  What \<open>create_package_version\<close> returns, in closed form: the new record when the
  requirement has a name that is not stored yet, \<open>None\<close> otherwise.
\<close>

definition created_record :: "pypi \<Rightarrow> requirement \<Rightarrow> package_version list \<Rightarrow> package_version option" where
  "created_record api r rows =
     (case name r of
        None \<Rightarrow> None
      | Some n \<Rightarrow>
          if n \<in> set (map package_name rows) then None
          else Some (new_package_version api n r))"

text \<open>The record stored under a key, if any.\<close>

definition stored :: "string option \<Rightarrow> package_version list \<Rightarrow> package_version option" where
  "stored key rows = (case objects_get key rows of Inl e \<Rightarrow> None | Inr pv \<Rightarrow> Some pv)"

text \<open>
  The names under which a record is stored once \<open>local\<close> has dealt with the
  requirements \<open>rs\<close>: the names stored before and the names of \<open>rs\<close>.
\<close>

definition names_before :: "package_version list \<Rightarrow> requirement list \<Rightarrow> string set" where
  "names_before rows rs = set (map package_name rows) \<union> set (List.map_filter name rs)"

text \<open>
  The record found under the URI of a requirement, read off the table \<open>final\<close> that
  a pass of \<open>local\<close> leaves, given the names \<open>known\<close> when the requirement's turn
  comes: the stored record if the URI was a stored name then, nothing otherwise.
\<close>

definition by_uri ::
  "string set \<Rightarrow> package_version list \<Rightarrow> requirement \<Rightarrow> package_version option" where
  "by_uri known final r =
     (case uri r of
        None \<Rightarrow> None
      | Some k \<Rightarrow> if k \<in> known then stored (Some k) final else None)"

text \<open>
  What one requirement contributes to the result of \<open>local\<close>. A requirement with a
  name that is new, or that is not empty, has a record under that name, created at its
  turn or found. Any other requirement contributes what is found under its URI.
\<close>

definition expected ::
  "string set \<Rightarrow> package_version list \<Rightarrow> requirement \<Rightarrow> package_version option" where
  "expected known final r =
     (case name r of
        None \<Rightarrow> by_uri known final r
      | Some n \<Rightarrow>
          if n \<notin> known \<or> n \<noteq> [] then stored (Some n) final else by_uri known final r)"

text \<open>
  What \<open>update_from_pypi\<close> makes of one record of a batch at time \<open>t\<close>: nothing when
  the record is editable (it is skipped) or the index fails, the refreshed record
  otherwise. \<open>updates\<close> lists the refreshed records of a batch in order.
\<close>

definition attempt :: "pypi \<Rightarrow> timestamp \<Rightarrow> package_version \<Rightarrow> package_version option" where
  "attempt api t pv =
     (if is_editable pv then None
      else case query api (package_name pv) of
        Inl e \<Rightarrow> None
      | Inr d \<Rightarrow> Some (refreshed api d t pv))"

definition updates :: "pypi \<Rightarrow> timestamp \<Rightarrow> package_version list \<Rightarrow> package_version list" where
  "updates api t pvs = List.map_filter (attempt api t) pvs"

text \<open>The list under a key of the result dictionary, empty when the key is absent.\<close>

definition listed :: "results \<Rightarrow> diff_status \<Rightarrow> package_version list" where
  "listed results key = (case results key of None \<Rightarrow> [] | Some pvs \<Rightarrow> pvs)"

text \<open>One record after a run of \<open>remote\<close> at time \<open>t\<close> that had it in its batch.\<close>

definition reconciled :: "pypi \<Rightarrow> timestamp \<Rightarrow> package_version \<Rightarrow> package_version" where
  "reconciled api t r = (case attempt api t r of None \<Rightarrow> r | Some u \<Rightarrow> u)"

section \<open>Concrete inputs\<close>

text \<open>
  The scenario of section 8 of the specification, extended by a package for which the
  index is unavailable: \<open>requests\<close> is pinned to 2.0.0 and the index publishes 2.0.0,
  2.1.0 and 3.0.0; \<open>mylib\<close> is editable; \<open>flaky\<close> cannot be fetched; \<open>six\<close> is up
  to date.
\<close>

definition demo_parse :: "string \<Rightarrow> version option" where
  "demo_parse s =
     map_of [(''2.0.0'', [2, 0, 0]), (''2.1.0'', [2, 1, 0]), (''3.0.0'', [3, 0, 0]),
             (''1.16.0'', [1, 16, 0])] s"

definition demo_index :: "string \<Rightarrow> exn + index_data" where
  "demo_index n =
     (if n = ''requests'' then
        Inr \<lparr> versions = [''2.1.0'', ''3.0.0'', ''2.0.0'', ''oops''],
              index_licence = Some ''Apache-2.0'',
              classifiers = {''py3''},
              index_url = Some ''https://pypi.org/project/requests/'',
              metadata = ''{requests}'' \<rparr>
      else if n = ''six'' then
        Inr \<lparr> versions = [''1.16.0''],
              index_licence = Some ''MIT'',
              classifiers = {},
              index_url = None,
              metadata = ''{six}'' \<rparr>
      else if n = ''flaky'' then Inl IndexUnavailable
      else Inl PackageNotFound)"

definition demo_api :: pypi where
  "demo_api = \<lparr> query = demo_index, parse_version = demo_parse,
                 py3_support = (\<lambda>cs. ''py3'' \<in> cs),
                 render_version = (\<lambda>v. concat (map (\<lambda>n. replicate n CHR ''i'' @ ''.'') v)) \<rparr>"

definition req_requests :: requirement where
  "req_requests = \<lparr> name = Some ''requests'', pinned = Some ''2.0.0'', editable = False,
                     uri = None \<rparr>"

definition req_mylib :: requirement where
  "req_mylib = \<lparr> name = Some ''mylib'', pinned = None, editable = True,
                  uri = Some ''git+https://example.com/mylib.git'' \<rparr>"

definition req_flaky :: requirement where
  "req_flaky = \<lparr> name = Some ''flaky'', pinned = Some ''2.0.0'', editable = False, uri = None \<rparr>"

definition req_six :: requirement where
  "req_six = \<lparr> name = Some ''six'', pinned = Some ''1.16.0'', editable = False, uri = None \<rparr>"

definition req_nameless :: requirement where
  "req_nameless = \<lparr> name = None, pinned = None, editable = True,
                     uri = Some ''git+https://example.com/other.git'' \<rparr>"

definition pv_requests :: package_version where
  "pv_requests = new_package_version demo_api ''requests'' req_requests"

definition pv_mylib :: package_version where
  "pv_mylib = new_package_version demo_api ''mylib'' req_mylib"

definition pv_flaky :: package_version where
  "pv_flaky = new_package_version demo_api ''flaky'' req_flaky"

definition pv_six :: package_version where
  "pv_six = new_package_version demo_api ''six'' req_six"

text \<open>A record with a latest version but no current one.\<close>

definition pv_unpinned :: package_version where
  "pv_unpinned = (new_package_version demo_api ''mylib'' req_mylib)
                   \<lparr> is_editable := False, latest_version := Some [3, 0, 0] \<rparr>"

definition demo_world :: world where
  "demo_world = \<lparr> table = [pv_requests, pv_mylib, pv_flaky, pv_six], logs = [],
                   clock = 1, requests = [] \<rparr>"

text \<open>A stored record whose version has drifted from the manifest.\<close>

definition pv_requests_old :: package_version where
  "pv_requests_old = pv_requests\<lparr> current_version := Some [1, 0, 0] \<rparr>"

definition drift_world :: world where
  "drift_world = \<lparr> table = [pv_requests_old], logs = [], clock = 1, requests = [] \<rparr>"

text \<open>A record stored under the URI of the requirement without a name.\<close>

definition pv_other :: package_version where
  "pv_other = (new_package_version demo_api ''git+https://example.com/other.git'' req_nameless)"

definition uri_world :: world where
  "uri_world = \<lparr> table = [pv_other], logs = [], clock = 1, requests = [] \<rparr>"

definition empty_world :: world where
  "empty_world = \<lparr> table = [], logs = [], clock = 1, requests = [] \<rparr>"

section \<open>Basic facts\<close>

lemma emit_simps [simp]:
  "table (emit l m w) = table w"
  "clock (emit l m w) = clock w"
  "requests (emit l m w) = requests w"
  "logs (emit l m w) = logs w @ [(l, m)]"
  by (simp_all add: emit_def)

text \<open>Lookups by name.\<close>

lemma find_app:
  "find P (xs @ ys) = (case find P xs of None \<Rightarrow> find P ys | Some x \<Rightarrow> Some x)"
  by (induction xs) auto

lemma find_None_names:
  "(find (\<lambda>r. package_name r = n) rows = None) = (n \<notin> set (map package_name rows))"
  by (induction rows) auto

lemma find_Some_name: "find (\<lambda>r. package_name r = n) rows = Some pv \<Longrightarrow> package_name pv = n \<and> pv \<in> set rows"
  by (induction rows) (auto split: if_splits)

lemma objects_get_grows:
  "objects_get key rows = Inr pv \<Longrightarrow> objects_get key (rows @ new) = Inr pv"
  by (auto simp: objects_get_def find_app split: option.splits)

lemma objects_get_shrinks:
  "objects_get key (rows @ new) = Inl e \<Longrightarrow> objects_get key rows = Inl e"
  by (auto simp: objects_get_def find_app split: option.splits)

lemma objects_get_only_DoesNotExist:
  "objects_get key rows = Inl e \<Longrightarrow> e = DoesNotExist"
  by (auto simp: objects_get_def split: option.splits)

lemma objects_get_found:
  "objects_get key rows = Inr pv \<Longrightarrow> key = Some (package_name pv) \<and> pv \<in> set rows"
  by (auto simp: objects_get_def split: option.splits dest: find_Some_name)

text \<open>
  The equations that evaluate the concrete inputs, a pass of \<open>local\<close> and a pass of
  \<open>remote\<close>.
\<close>

lemmas demo_defs =
  demo_parse_def demo_index_def demo_api_def req_requests_def req_mylib_def req_flaky_def
  req_six_def req_nameless_def pv_requests_def pv_mylib_def pv_flaky_def pv_six_def
  pv_unpinned_def demo_world_def pv_requests_old_def drift_world_def empty_world_def
  pv_other_def uri_world_def
  new_package_version_def Let_def

lemmas local_defs =
  local_def create_package_version_def save_new_def objects_get_def name_or_uri_def emit_def

lemmas remote_defs =
  remote_def selected_def exclude_editable_def update_from_pypi_def refreshed_def save_def
  append_result_def latest_of_def next_of_def classify_def List.map_filter_def emit_def
  listed_def objects_get_def

section \<open>\<open>clean\<close>\<close>

text \<open>
  C8: \<open>clean\<close> deletes every stored record, whatever its fields: afterwards the table
  is empty, listing the default set gives nothing and no name can be looked up.
\<close>

theorem clean_deletes_all:
  "table (clean w) = []
   \<and> exclude_editable (table (clean w)) = []
   \<and> objects_get key (table (clean w)) = Inl DoesNotExist"
  by (simp add: clean_def exclude_editable_def objects_get_def split: option.splits)

section \<open>The admin filter\<close>

text \<open>
  C9: the value \<open>-1\<close> of the filter "Update available" selects exactly the records
  whose latest version is null, and a record with a latest version but no current
  version is selected by none of the three values that the filter offers.
\<close>

theorem update_filter_gap:
  assumes "current_version p = None" and "latest_version p \<noteq> None"
  shows "queryset (Some ''-1'') qs = filter (\<lambda>r. latest_version r = None) qs
         \<and> map fst lookups = [''1'', ''0'', ''-1'']
         \<and> p \<notin> set (queryset (Some ''1'') qs)
         \<and> p \<notin> set (queryset (Some ''0'') qs)
         \<and> p \<notin> set (queryset (Some ''-1'') qs)"
  using assms by (simp add: queryset_def lookups_def)

theorem update_filter_gap_witness:
  "current_version pv_unpinned = None \<and> latest_version pv_unpinned \<noteq> None
   \<and> pv_unpinned \<in> set [pv_requests, pv_unpinned]
   \<and> pv_unpinned \<notin> set (queryset (Some ''1'') [pv_requests, pv_unpinned])
   \<and> pv_unpinned \<notin> set (queryset (Some ''0'') [pv_requests, pv_unpinned])
   \<and> pv_unpinned \<notin> set (queryset (Some ''-1'') [pv_requests, pv_unpinned])
   \<and> queryset None [pv_requests, pv_unpinned] = [pv_requests, pv_unpinned]"
proof -
  have c: "current_version pv_unpinned = None"
    by (simp add: demo_defs)
  have l: "latest_version pv_unpinned \<noteq> None"
    by (simp add: pv_unpinned_def)
  show ?thesis
    using c l update_filter_gap [OF c l, of "[pv_requests, pv_unpinned]"]
    by (simp add: queryset_def)
qed

section \<open>\<open>local\<close>\<close>

lemma create_package_version_eq:
  "create_package_version api r w = Inr (created_record api r (table w), created api r w)"
  by (simp add: create_package_version_def save_new_def created_def created_record_def
        split: option.splits)

lemma created_table:
  "\<exists>new. table (created api r w) = table w @ new
     \<and> (\<forall>pv\<in>set new. name r = Some (package_name pv)
            \<and> pv = new_package_version api (package_name pv) r)"
  by (simp add: created_def new_package_version_def Let_def split: option.splits)

lemma created_logs: "\<exists>ms. logs (created api r w) = logs w @ ms"
  by (simp add: created_def split: option.splits)

lemma created_names:
  "set (map package_name (table (created api r w)))
     = set (map package_name (table w)) \<union> set (List.map_filter name [r])"
  by (auto simp: created_def new_package_version_def Let_def List.map_filter_def
        split: option.splits)

lemma created_existing:
  "name r = Some n \<Longrightarrow> n \<in> set (map package_name (table w)) \<Longrightarrow>
   created api r w = emit INFO (Package_already_exists (Some n)) w"
  by (simp add: created_def)

lemma created_record_None:
  "created_record api r (table w) = None \<Longrightarrow> table (created api r w) = table w"
  by (auto simp: created_record_def created_def split: option.splits if_splits)

lemma created_record_Some:
  "created_record api r (table w) = Some pv \<Longrightarrow>
     table (created api r w) = table w @ [pv] \<and> name r = Some (package_name pv)
     \<and> package_name pv \<notin> set (map package_name (table w))
     \<and> pv = new_package_version api (package_name pv) r"
  by (auto simp: created_record_def created_def new_package_version_def Let_def
        split: option.splits if_splits)

lemma stored_None [simp]: "stored None rows = None"
  by (simp add: stored_def objects_get_def)

lemma stored_absent:
  "k \<notin> set (map package_name rows) \<Longrightarrow> stored (Some k) rows = None"
  using find_None_names [of k rows] by (simp add: stored_def objects_get_def)

lemma stored_grows:
  "k \<in> set (map package_name rows) \<Longrightarrow> stored (Some k) (rows @ new) = stored (Some k) rows"
  using find_None_names [of k rows]
  by (auto simp: stored_def objects_get_def find_app split: option.splits)

lemma stored_new:
  "package_name pv \<notin> set (map package_name rows) \<Longrightarrow>
   stored (Some (package_name pv)) (rows @ pv # new) = Some pv"
  using find_None_names [of "package_name pv" rows]
  by (auto simp: stored_def objects_get_def find_app split: option.splits)

lemma by_uri_expected:
  "by_uri (set (map package_name rows)) (rows @ new) r = stored (uri r) rows"
  by (cases "uri r") (auto simp: by_uri_def stored_grows stored_absent simp del: set_map)

text \<open>The contribution of the requirement whose turn it is, read off the final table.\<close>

lemma head_expected:
  assumes "table w1 = table (created api r w0)" and "table w0 = rows"
    and "final = table w1 @ new"
  shows "(case created_record api r rows of
            Some pv \<Rightarrow> Some pv
          | None \<Rightarrow> stored (name_or_uri r) (table w1))
         = expected (set (map package_name rows)) final r"
proof (cases "created_record api r rows")
  case (Some pv)
  then have "table w1 = rows @ [pv]" and n: "name r = Some (package_name pv)"
    and fresh: "package_name pv \<notin> set (map package_name rows)"
    using created_record_Some [of api r w0 pv] assms(1,2) by auto
  then have "final = rows @ pv # new" using assms(3) by simp
  then have "stored (Some (package_name pv)) final = Some pv"
    using fresh by (simp add: stored_new)
  then show ?thesis
    using Some n fresh by (simp add: expected_def)
next
  case None
  then have t1: "table w1 = rows"
    using created_record_None [of api r w0] assms(1,2) by simp
  then have fin: "final = rows @ new" using assms(3) by simp
  show ?thesis
  proof (cases "name r")
    case nn: None
    then show ?thesis
      using \<open>created_record api r rows = None\<close> t1 fin by_uri_expected [where r = r and rows = rows and new = new]
      by (simp add: expected_def name_or_uri_def del: set_map)
  next
    case (Some n)
    then have known: "n \<in> set (map package_name rows)"
      using None by (auto simp: created_record_def split: if_splits)
    show ?thesis
    proof (cases "n = []")
      case True
      then show ?thesis
        using None Some known t1 fin by_uri_expected [where r = r and rows = rows and new = new]
        by (simp add: expected_def name_or_uri_def del: set_map)
    next
      case False
      then show ?thesis
        using None Some known t1 fin by (simp add: expected_def name_or_uri_def stored_grows del: set_map)
    qed
  qed
qed


lemma names_before_Nil [simp]: "names_before rows [] = set (map package_name rows)"
  by (simp add: names_before_def List.map_filter_def)

lemma names_before_Cons:
  "table w1 = table (created api r w0) \<Longrightarrow> table w0 = rows \<Longrightarrow>
   names_before (table w1) rs = names_before rows (r # rs)"
  using created_names [of api r w0]
  by (auto simp: names_before_def List.map_filter_def)

lemma map_filter_member:
  "pv \<in> set (List.map_filter (\<lambda>out. out) outcome) \<longleftrightarrow> Some pv \<in> set outcome"
  by (induction outcome) (auto split: option.splits)

text \<open>One turn of the loop of \<open>local\<close>.\<close>

lemma local_loop_turn:
  obtains out w2 where
    "local_loop api (r # rs) acc w
       = local_loop api rs (acc @ List.map_filter (\<lambda>out. out) [out]) w2"
    and "table w2 = table (created api r (emit DEBUG (Creating_new_package r) w))"
    and "out = (case created_record api r (table w) of
                  Some pv \<Rightarrow> Some pv
                | None \<Rightarrow> stored (name_or_uri r) (table w2))"
    and "\<exists>ms. logs w2 = logs (created api r (emit DEBUG (Creating_new_package r) w)) @ ms"
    and "out = None \<longrightarrow> (ERROR, Skipping_missing_package r) \<in> set (logs w2)"
proof -
  let ?w1 = "created api r (emit DEBUG (Creating_new_package r) w)"
  have cpv: "create_package_version api r (emit DEBUG (Creating_new_package r) w)
               = Inr (created_record api r (table w), ?w1)"
    by (simp add: create_package_version_eq)
  show thesis
  proof (cases "created_record api r (table w)")
    case (Some pv)
    show ?thesis
    proof (rule that [of "Some pv" ?w1])
      show "local_loop api (r # rs) acc w
              = local_loop api rs (acc @ List.map_filter (\<lambda>out. out) [Some pv]) ?w1"
        by (simp add: cpv Some)
      show "Some pv = (case created_record api r (table w) of
                  Some pv \<Rightarrow> Some pv
                | None \<Rightarrow> stored (name_or_uri r) (table ?w1))"
        by (simp add: Some)
    qed simp_all
  next
    case None
    show ?thesis
    proof (cases "objects_get (name_or_uri r) (table ?w1)")
      case (Inr pv)
      show ?thesis
      proof (rule that [of "Some pv" ?w1])
        show "local_loop api (r # rs) acc w
                = local_loop api rs (acc @ List.map_filter (\<lambda>out. out) [Some pv]) ?w1"
          by (simp add: cpv None Inr)
        show "Some pv = (case created_record api r (table w) of
                    Some pv \<Rightarrow> Some pv
                  | None \<Rightarrow> stored (name_or_uri r) (table ?w1))"
          by (simp add: None Inr stored_def)
      qed simp_all
    next
      case (Inl e)
      then have e: "e = DoesNotExist" by (rule objects_get_only_DoesNotExist)
      let ?w2 = "emit ERROR (Skipping_missing_package r) ?w1"
      show ?thesis
      proof (rule that [of None ?w2])
        show "local_loop api (r # rs) acc w
                = local_loop api rs (acc @ List.map_filter (\<lambda>out. out) [None]) ?w2"
          using Inl e by (simp add: cpv None)
        show "None = (case created_record api r (table w) of
                    Some pv \<Rightarrow> Some pv
                  | None \<Rightarrow> stored (name_or_uri r) (table ?w2))"
          using Inl by (simp add: None stored_def)
      qed simp_all
    qed
  qed
qed

lemma local_loop_outcomes:
  "\<exists>outcome w'. local_loop api rs acc w = Inr (acc @ List.map_filter (\<lambda>out. out) outcome, w')
     \<and> (\<exists>new. table w' = table w @ new
           \<and> (\<forall>pv\<in>set new. \<exists>q\<in>set rs. name q = Some (package_name pv)
                  \<and> pv = new_package_version api (package_name pv) q))
     \<and> (\<exists>ms. logs w' = logs w @ ms)
     \<and> length outcome = length rs
     \<and> (\<forall>i<length rs.
           outcome ! i = expected (names_before (table w) (take i rs)) (table w') (rs ! i)
           \<and> (outcome ! i = None \<longrightarrow> (ERROR, Skipping_missing_package (rs ! i)) \<in> set (logs w')))
     \<and> set (map package_name (table w')) = names_before (table w) rs"
proof (induction rs arbitrary: acc w)
  case Nil
  show ?case by (intro exI [of _ "[]"]) simp
next
  case (Cons r rs)
  let ?w0 = "emit DEBUG (Creating_new_package r) w"
  obtain out w2 ms2 where
    turn: "local_loop api (r # rs) acc w
             = local_loop api rs (acc @ List.map_filter (\<lambda>out. out) [out]) w2"
    and t2: "table w2 = table (created api r ?w0)"
    and out: "out = (case created_record api r (table w) of
                  Some pv \<Rightarrow> Some pv
                | None \<Rightarrow> stored (name_or_uri r) (table w2))"
    and l2: "logs w2 = logs (created api r ?w0) @ ms2"
    and skip: "out = None \<longrightarrow> (ERROR, Skipping_missing_package r) \<in> set (logs w2)"
    using local_loop_turn [of api r rs acc w] by metis
  obtain new1 where n1: "table w2 = table w @ new1"
    and c1: "\<forall>pv\<in>set new1. name r = Some (package_name pv)
               \<and> pv = new_package_version api (package_name pv) r"
    using created_table [of api r ?w0] t2 by auto
  obtain ms1 where m1: "logs w2 = logs w @ ms1"
    using created_logs [of api r ?w0] l2 by auto
  obtain outcome w' new ms where
    run: "local_loop api rs (acc @ List.map_filter (\<lambda>out. out) [out]) w2
            = Inr ((acc @ List.map_filter (\<lambda>out. out) [out])
                     @ List.map_filter (\<lambda>out. out) outcome, w')"
    and t: "table w' = table w2 @ new" and l: "logs w' = logs w2 @ ms"
    and cr: "\<forall>pv\<in>set new. \<exists>q\<in>set rs. name q = Some (package_name pv)
               \<and> pv = new_package_version api (package_name pv) q"
    and len: "length outcome = length rs"
    and each: "\<forall>i<length rs.
           outcome ! i = expected (names_before (table w2) (take i rs)) (table w') (rs ! i)
           \<and> (outcome ! i = None \<longrightarrow> (ERROR, Skipping_missing_package (rs ! i)) \<in> set (logs w'))"
    and nms: "set (map package_name (table w')) = names_before (table w2) rs"
    using Cons.IH [of "acc @ List.map_filter (\<lambda>out. out) [out]" w2] by blast
  have tw0: "table ?w0 = table w" by simp
  have head: "out = expected (set (map package_name (table w))) (table w') r"
    using head_expected [OF t2 tw0 t] out by simp
  have shift: "names_before (table w2) xs = names_before (table w) (r # xs)" for xs
    using names_before_Cons [OF t2 tw0] .
  have a: "local_loop api (r # rs) acc w
             = Inr (acc @ List.map_filter (\<lambda>out. out) (out # outcome), w')"
    using turn run by (cases out) simp_all
  have b: "(out # outcome) ! i
             = expected (names_before (table w) (take i (r # rs))) (table w') ((r # rs) ! i)
           \<and> ((out # outcome) ! i = None
                \<longrightarrow> (ERROR, Skipping_missing_package ((r # rs) ! i)) \<in> set (logs w'))"
    if "i < length (r # rs)" for i
  proof (cases i)
    case 0
    then show ?thesis using head skip l by auto
  next
    case (Suc j)
    then have "j < length rs" using that by simp
    then show ?thesis using each Suc by (simp add: shift)
  qed
  have c: "set (map package_name (table w')) = names_before (table w) (r # rs)"
    using nms by (simp only: shift)
  have d: "table w' = table w @ (new1 @ new)
           \<and> (\<forall>pv\<in>set (new1 @ new). \<exists>q\<in>set (r # rs). name q = Some (package_name pv)
                  \<and> pv = new_package_version api (package_name pv) q)"
    using t n1 c1 cr by auto
  have e: "\<exists>ms. logs w' = logs w @ ms"
    using l m1 by simp
  have d': "\<exists>new. table w' = table w @ new
           \<and> (\<forall>pv\<in>set new. \<exists>q\<in>set (r # rs). name q = Some (package_name pv)
                  \<and> pv = new_package_version api (package_name pv) q)"
    using d by blast
  have f: "length (out # outcome) = length (r # rs)"
    using len by simp
  have b': "\<forall>i<length (r # rs).
           (out # outcome) ! i
             = expected (names_before (table w) (take i (r # rs))) (table w') ((r # rs) ! i)
           \<and> ((out # outcome) ! i = None
                \<longrightarrow> (ERROR, Skipping_missing_package ((r # rs) ! i)) \<in> set (logs w'))"
    using b by blast
  show ?case
    by (intro exI [of _ "out # outcome"] exI [of _ w'] conjI a d' e f b' c)
qed


lemma local_outcomes:
  "\<exists>outcome w'. local api reqs w = Inr (List.map_filter (\<lambda>out. out) outcome, w')
     \<and> (\<exists>new. table w' = table w @ new
           \<and> (\<forall>pv\<in>set new. \<exists>q\<in>set reqs. name q = Some (package_name pv)
                  \<and> pv = new_package_version api (package_name pv) q))
     \<and> (\<exists>ms. logs w' = logs w @ ms)
     \<and> length outcome = length reqs
     \<and> (\<forall>i<length reqs.
           outcome ! i = expected (names_before (table w) (take i reqs)) (table w') (reqs ! i)
           \<and> (outcome ! i = None
                \<longrightarrow> (ERROR, Skipping_missing_package (reqs ! i)) \<in> set (logs w')))
     \<and> set (map package_name (table w')) = names_before (table w) reqs"
  using local_loop_outcomes [of api reqs "[]" "emit INFO Loading_requirements w"]
  by (auto simp: local_def)

text \<open>
  C6: \<open>local\<close> never aborts, and its result lists, in manifest order, one record for
  each requirement that has a record when its turn is over, and nothing for the others.
  A requirement with a usable name contributes the record stored under that name after
  the pass, whether its turn created the record or found it. A requirement without one
  contributes the record stored under its URI, if the URI was a stored name when its
  turn came; otherwise it is skipped, and the skip is logged at level \<open>ERROR\<close>. The
  table keeps its old rows in place; the rows added are records made from requirements
  of the manifest, one for each new name, and none for a requirement that is skipped.
\<close>

theorem local_one_record_per_requirement:
  "\<exists>pkgs w' outcome. local api reqs w = Inr (pkgs, w')
     \<and> pkgs = List.map_filter (\<lambda>out. out) outcome
     \<and> length outcome = length reqs
     \<and> (\<forall>i<length reqs.
           outcome ! i = expected (names_before (table w) (take i reqs)) (table w') (reqs ! i)
           \<and> (outcome ! i = None
                \<longrightarrow> (ERROR, Skipping_missing_package (reqs ! i)) \<in> set (logs w')))
     \<and> set (map package_name (table w')) = names_before (table w) reqs
     \<and> take (length (table w)) (table w') = table w
     \<and> (\<forall>pv\<in>set (drop (length (table w)) (table w')).
           \<exists>q\<in>set reqs. name q = Some (package_name pv)
             \<and> pv = new_package_version api (package_name pv) q)"
proof -
  obtain outcome w' new where
    "local api reqs w = Inr (List.map_filter (\<lambda>out. out) outcome, w')"
    and "table w' = table w @ new"
    and "\<forall>pv\<in>set new. \<exists>q\<in>set reqs. name q = Some (package_name pv)
           \<and> pv = new_package_version api (package_name pv) q"
    and "length outcome = length reqs"
    and "\<forall>i<length reqs.
           outcome ! i = expected (names_before (table w) (take i reqs)) (table w') (reqs ! i)
           \<and> (outcome ! i = None
                \<longrightarrow> (ERROR, Skipping_missing_package (reqs ! i)) \<in> set (logs w'))"
    and "set (map package_name (table w')) = names_before (table w) reqs"
    using local_outcomes [of api reqs w] by blast
  then show ?thesis
    by (intro exI [of _ "List.map_filter (\<lambda>out. out) outcome"] exI [of _ w']
          exI [of _ outcome]) simp
qed

theorem local_one_record_per_requirement_witness:
  "(case local demo_api [req_six, req_requests, req_nameless, req_mylib] drift_world of
      Inr (pkgs, w') \<Rightarrow>
        pkgs = [pv_six, pv_requests_old, pv_mylib]
        \<and> table w' = [pv_requests_old, pv_six, pv_mylib]
        \<and> expected (names_before (table drift_world) []) (table w') req_six = Some pv_six
        \<and> expected (names_before (table drift_world) [req_six]) (table w') req_requests
             = Some pv_requests_old
        \<and> expected (names_before (table drift_world) [req_six, req_requests]) (table w')
             req_nameless = None
        \<and> (ERROR, Skipping_missing_package req_nameless) \<in> set (logs w')
    | Inl e \<Rightarrow> False)"
  using local_one_record_per_requirement
          [of demo_api "[req_six, req_requests, req_nameless, req_mylib]" drift_world]
  by (simp add: local_defs expected_def by_uri_def stored_def names_before_def
        List.map_filter_def demo_defs)


text \<open>
  C10: \<open>create_package_version\<close> returns the created record when the requirement has
  a name that is not stored yet, and \<open>None\<close> exactly when the creation raises
  \<open>IntegrityError\<close>. Each turn of \<open>local\<close> appends the record that the creation call
  returned; only when there is none does it append what the lookup under
  \<open>r.name or r.uri\<close> finds. For a requirement without a name the key is the URI: if a
  record is stored under the URI, that record is the result.
\<close>

theorem create_package_version_result:
  "create_package_version api r w = Inr (created_record api r (table w), created api r w)
   \<and> ((created_record api r (table w) = None)
        = (\<forall>n. name r = Some n \<longrightarrow> n \<in> set (map package_name (table w))))
   \<and> (\<exists>w2. local_loop api (r # rs) packages w
               = local_loop api rs
                   (packages @ (case created_record api r (table w) of
                                  Some pv \<Rightarrow> [pv]
                                | None \<Rightarrow>
                                    (case objects_get (name_or_uri r) (table w) of
                                       Inr pv \<Rightarrow> [pv]
                                     | Inl e \<Rightarrow> []))) w2
             \<and> table w2 = table (created api r w))
   \<and> (\<forall>k old. name r = None \<longrightarrow> uri r = Some k
         \<longrightarrow> objects_get (Some k) (table w) = Inr old
         \<longrightarrow> (\<exists>w'. local api [r] w = Inr ([old], w')))"
proof (intro conjI)
  show "create_package_version api r w = Inr (created_record api r (table w), created api r w)"
    by (rule create_package_version_eq)
  show "(created_record api r (table w) = None)
          = (\<forall>n. name r = Some n \<longrightarrow> n \<in> set (map package_name (table w)))"
    by (cases "name r") (simp_all add: created_record_def)
  have same: "table (created api r (emit l m w)) = table (created api r w)" for l m
    by (simp add: created_def split: option.splits)
  obtain out w2 where
    turn: "local_loop api (r # rs) packages w
             = local_loop api rs (packages @ List.map_filter (\<lambda>out. out) [out]) w2"
    and t2: "table w2 = table (created api r (emit DEBUG (Creating_new_package r) w))"
    and out: "out = (case created_record api r (table w) of
                  Some pv \<Rightarrow> Some pv
                | None \<Rightarrow> stored (name_or_uri r) (table w2))"
    using local_loop_turn [of api r rs packages w] by metis
  have "List.map_filter (\<lambda>out. out) [out]
          = (case created_record api r (table w) of
               Some pv \<Rightarrow> [pv]
             | None \<Rightarrow>
                 (case objects_get (name_or_uri r) (table w) of
                    Inr pv \<Rightarrow> [pv]
                  | Inl e \<Rightarrow> []))"
  proof (cases "created_record api r (table w)")
    case (Some pv)
    with out show ?thesis by simp
  next
    case None
    then have "table w2 = table w"
      using t2 created_record_None [of api r w] by (simp add: same)
    with None out show ?thesis
      by (simp add: stored_def split: sum.splits)
  qed
  with turn t2 show "\<exists>w2. local_loop api (r # rs) packages w
               = local_loop api rs
                   (packages @ (case created_record api r (table w) of
                                  Some pv \<Rightarrow> [pv]
                                | None \<Rightarrow>
                                    (case objects_get (name_or_uri r) (table w) of
                                       Inr pv \<Rightarrow> [pv]
                                     | Inl e \<Rightarrow> []))) w2
             \<and> table w2 = table (created api r w)"
    by (auto simp: same)
  show "\<forall>k old. name r = None \<longrightarrow> uri r = Some k
         \<longrightarrow> objects_get (Some k) (table w) = Inr old
         \<longrightarrow> (\<exists>w'. local api [r] w = Inr ([old], w'))"
    by (simp add: local_def create_package_version_eq created_record_def created_def
          name_or_uri_def)
qed

theorem create_package_version_result_witness:
  "name req_nameless = None
   \<and> uri req_nameless = Some ''git+https://example.com/other.git''
   \<and> objects_get (Some ''git+https://example.com/other.git'') (table uri_world) = Inr pv_other
   \<and> create_package_version demo_api req_nameless uri_world
        = Inr (None, created demo_api req_nameless uri_world)
   \<and> map_sum id fst (local demo_api [req_nameless] uri_world) = Inr [pv_other]
   \<and> map_sum id fst (local demo_api [req_nameless, req_six] uri_world) = Inr [pv_other, pv_six]"
  using create_package_version_result
          [where api = demo_api and r = req_nameless and w = uri_world and rs = "[]"
             and packages = "[]"]
  by (simp add: local_defs created_def created_record_def demo_defs)

text \<open>
  The creation call does not return \<open>None\<close> for every requirement: for a new name it
  returns the created record, and \<open>local\<close> appends it without a lookup.
\<close>

theorem create_package_version_returns_None_counterexample:
  "create_package_version demo_api req_requests empty_world
     = Inr (Some pv_requests, created demo_api req_requests empty_world)
   \<and> map_sum id fst (create_package_version demo_api req_requests empty_world)
        \<noteq> Inr None
   \<and> map_sum id fst (local demo_api [req_requests] empty_world) = Inr [pv_requests]"
  by (simp add: local_defs created_def demo_defs)

lemma local_loop_logs_existing:
  "r \<in> set rs \<Longrightarrow> name r = Some n \<Longrightarrow> n \<in> set (map package_name (table w)) \<Longrightarrow>
   local_loop api rs acc w = Inr (pkgs, w') \<Longrightarrow>
   (INFO, Package_already_exists (Some n)) \<in> set (logs w')"
proof (induction rs arbitrary: acc w)
  case Nil
  then show ?case by simp
next
  case (Cons q rs)
  let ?w1 = "created api q (emit DEBUG (Creating_new_package q) w)"
  obtain out w2 ms2 where
    turn: "local_loop api (q # rs) acc w
             = local_loop api rs (acc @ List.map_filter (\<lambda>out. out) [out]) w2"
    and t2: "table w2 = table ?w1"
    and l2: "logs w2 = logs ?w1 @ ms2"
    using local_loop_turn [of api q rs acc w] by metis
  have rest: "local_loop api rs (acc @ List.map_filter (\<lambda>out. out) [out]) w2 = Inr (pkgs, w')"
    using Cons.prems(4) turn by simp
  show ?case
  proof (cases "r = q")
    case True
    then have "?w1 = emit INFO (Package_already_exists (Some n))
                      (emit DEBUG (Creating_new_package q) w)"
      using Cons.prems(2,3) by (simp add: created_existing)
    then have "(INFO, Package_already_exists (Some n)) \<in> set (logs w2)"
      using l2 by simp
    moreover obtain ms where "logs w' = logs w2 @ ms"
      using local_loop_outcomes [of api rs "acc @ List.map_filter (\<lambda>out. out) [out]" w2] rest
      by auto
    ultimately show ?thesis by simp
  next
    case False
    then have "r \<in> set rs" using Cons.prems(1) by simp
    moreover obtain new1 where "table ?w1 = table w @ new1"
      using created_table [of api q "emit DEBUG (Creating_new_package q) w"] by auto
    then have "n \<in> set (map package_name (table w2))"
      using Cons.prems(3) t2 by simp
    ultimately show ?thesis
      using Cons.IH [of w2 "acc @ List.map_filter (\<lambda>out. out) [out]"] Cons.prems(2) rest
      by blast
  qed
qed

text \<open>
  C5: when the manifest names a package that already has a stored record, \<open>local\<close>
  completes, the stored record is the same afterwards (no existing row is touched: the
  table only grows at its end), the failed creation is logged as "already exists", and
  the existing record, found by its name, is in the returned list.
\<close>

theorem local_keeps_existing_record:
  assumes "r \<in> set reqs" and "name r = Some n" and "n \<noteq> []"
    and "objects_get (Some n) (table w) = Inr old"
  shows "\<exists>pkgs w'. local api reqs w = Inr (pkgs, w')
           \<and> objects_get (Some n) (table w') = Inr old
           \<and> take (length (table w)) (table w') = table w
           \<and> old \<in> set pkgs
           \<and> (INFO, Package_already_exists (Some n)) \<in> set (logs w')"
proof -
  obtain outcome w' new where
    run: "local api reqs w = Inr (List.map_filter (\<lambda>out. out) outcome, w')"
    and t: "table w' = table w @ new"
    and len: "length outcome = length reqs"
    and each: "\<forall>i<length reqs.
           outcome ! i = expected (names_before (table w) (take i reqs)) (table w') (reqs ! i)"
    using local_outcomes [of api reqs w] by blast
  have kept: "objects_get (Some n) (table w') = Inr old"
    using assms(4) t by (simp add: objects_get_grows)
  obtain i where i: "i < length reqs" and ri: "reqs ! i = r"
    using assms(1) by (auto simp: in_set_conv_nth)
  have "outcome ! i = expected (names_before (table w) (take i reqs)) (table w') r"
    using each i ri by auto
  then have "outcome ! i = Some old"
    using assms(2,3) kept by (simp add: expected_def stored_def)
  then have "Some old \<in> set outcome"
    using i len by (metis nth_mem)
  then have listed: "old \<in> set (List.map_filter (\<lambda>out. out) outcome)"
    by (simp only: map_filter_member)
  have "n \<in> set (map package_name (table w))"
    using assms(4) by (auto dest: objects_get_found)
  then have "(INFO, Package_already_exists (Some n)) \<in> set (logs w')"
    using local_loop_logs_existing [of r reqs n "emit INFO Loading_requirements w" api "[]"]
      assms(1,2) run by (simp add: local_def)
  with run kept listed t show ?thesis by simp
qed

theorem local_keeps_existing_record_witness:
  "req_requests \<in> set [req_requests, req_mylib]
   \<and> name req_requests = Some ''requests'' \<and> ''requests'' \<noteq> []
   \<and> objects_get (Some ''requests'') (table drift_world) = Inr pv_requests_old
   \<and> current_version pv_requests_old \<noteq> current_version pv_requests
   \<and> (case local demo_api [req_requests, req_mylib] drift_world of
         Inr (pkgs, w') \<Rightarrow>
           pkgs = [pv_requests_old, pv_mylib]
           \<and> objects_get (Some ''requests'') (table w') = Inr pv_requests_old
       | Inl e \<Rightarrow> False)"
proof -
  have m: "req_requests \<in> set [req_requests, req_mylib]" by simp
  have n: "name req_requests = Some ''requests''" by (simp add: req_requests_def)
  have e: "''requests'' \<noteq> []" by simp
  have g: "objects_get (Some ''requests'') (table drift_world) = Inr pv_requests_old"
    by (simp add: objects_get_def demo_defs)
  show ?thesis
    using local_keeps_existing_record [OF m n e g, of demo_api] m n e g
    by (simp add: local_defs demo_defs)
qed

section \<open>\<open>remote\<close> and \<open>check_pypi\<close>\<close>


lemma refreshed_keeps [simp]:
  "package_name (refreshed api d t pv) = package_name pv"
  "is_editable (refreshed api d t pv) = is_editable pv"
  "current_version (refreshed api d t pv) = current_version pv"
  by (simp_all add: refreshed_def Let_def)

lemma attempt_Some:
  "attempt api t pv = Some u \<Longrightarrow>
     package_name u = package_name pv \<and> \<not> is_editable pv \<and> \<not> is_editable u
     \<and> (\<exists>d. query api (package_name pv) = Inr d \<and> u = refreshed api d t pv)"
  by (auto simp: attempt_def split: if_splits sum.splits)

lemma updates_Cons:
  "updates api t (pv # pvs) =
     (case attempt api t pv of None \<Rightarrow> updates api t pvs | Some u \<Rightarrow> u # updates api t pvs)"
  by (simp add: updates_def split: option.splits)

lemma updates_Nil [simp]: "updates api t [] = []"
  by (simp add: updates_def)

lemma updates_member:
  "u \<in> set (updates api t pvs) \<longleftrightarrow> (\<exists>pv\<in>set pvs. attempt api t pv = Some u)"
  by (induction pvs) (auto simp: updates_Cons split: option.splits)

lemma update_from_pypi_eq:
  "update_from_pypi api pv w =
     (case query api (package_name pv) of
        Inl e \<Rightarrow> (Inl e, w\<lparr>requests := requests w @ [package_name pv]\<rparr>)
      | Inr d \<Rightarrow> (Inr (refreshed api d (clock w) pv),
                  w\<lparr>requests := requests w @ [package_name pv],
                    table := save (refreshed api d (clock w) pv) (table w)\<rparr>))"
  by (simp add: update_from_pypi_def Let_def split: sum.splits)

lemma remote_loop_closed:
  "clock (snd (remote_loop api pvs res w)) = clock w
   \<and> requests (snd (remote_loop api pvs res w))
       = requests w @ map package_name (exclude_editable pvs)
   \<and> table (snd (remote_loop api pvs res w)) = fold save (updates api (clock w) pvs) (table w)
   \<and> fst (remote_loop api pvs res w)
       = fold (\<lambda>p. append_result (diff_status p) p) (updates api (clock w) pvs) res
   \<and> (\<exists>ms. logs (snd (remote_loop api pvs res w)) = logs w @ ms)"
proof (induction pvs arbitrary: res w)
  case Nil
  show ?case by (simp add: exclude_editable_def)
next
  case (Cons pv pvs)
  show ?case
  proof (cases "is_editable pv")
    case True
    then show ?thesis
      using Cons.IH [of res "emit DEBUG (Skipping_editable_package pv) w"]
      by (auto simp: exclude_editable_def updates_Cons attempt_def)
  next
    case False
    show ?thesis
    proof (cases "query api (package_name pv)")
      case (Inl e)
      then show ?thesis
        using False
          Cons.IH [of res "emit ERROR (Update_failed pv e)
                             (w\<lparr>requests := requests w @ [package_name pv]\<rparr>)"]
        by (auto simp: exclude_editable_def updates_Cons attempt_def update_from_pypi_eq)
    next
      case (Inr d)
      define u where "u = refreshed api d (clock w) pv"
      show ?thesis
        using False Inr
          Cons.IH [of "append_result (diff_status u) u res"
                      "emit DEBUG (Updated_package u)
                         (w\<lparr>requests := requests w @ [package_name pv],
                            table := save u (table w)\<rparr>)"]
        by (auto simp: exclude_editable_def updates_Cons attempt_def update_from_pypi_eq
              u_def [symmetric])
    qed
  qed
qed

lemma remote_loop_logs_kept:
  "x \<in> set (logs w) \<Longrightarrow> x \<in> set (logs (snd (remote_loop api pvs res w)))"
  using remote_loop_closed [of api pvs res w] by auto

lemma remote_loop_failure_logged:
  "pv \<in> set pvs \<Longrightarrow> \<not> is_editable pv \<Longrightarrow> query api (package_name pv) = Inl e \<Longrightarrow>
   (ERROR, Update_failed pv e) \<in> set (logs (snd (remote_loop api pvs res w)))"
proof (induction pvs arbitrary: res w)
  case Nil
  then show ?case by simp
next
  case (Cons q pvs)
  show ?case
  proof (cases "q = pv")
    case True
    have "(ERROR, Update_failed pv e)
            \<in> set (logs (emit ERROR (Update_failed pv e)
                 (w\<lparr>requests := requests w @ [package_name pv]\<rparr>)))"
      by simp
    then show ?thesis
      using True Cons.prems(2,3)
      by (simp add: update_from_pypi_eq remote_loop_logs_kept del: emit_simps)
  next
    case False
    then have mem: "pv \<in> set pvs" using Cons.prems(1) by simp
    show ?thesis
    proof (cases "is_editable q")
      case True
      then show ?thesis using Cons.IH [OF mem Cons.prems(2,3)] by simp
    next
      case False
      then show ?thesis
        using Cons.IH [OF mem Cons.prems(2,3)]
        by (cases "query api (package_name q)") (simp_all add: update_from_pypi_eq)
    qed
  qed
qed


lemma find_replace_same:
  "package_name pv \<in> set (map package_name rows) \<Longrightarrow>
   find (\<lambda>r. package_name r = package_name pv)
     (map (\<lambda>r. if package_name r = package_name pv then pv else r) rows) = Some pv"
proof (induction rows)
  case Nil
  then show ?case by simp
next
  case (Cons a rows)
  then show ?case by (cases "package_name a = package_name pv") auto
qed

lemma find_replace_other:
  "n \<noteq> package_name pv \<Longrightarrow>
   find (\<lambda>r. package_name r = n)
     (map (\<lambda>r. if package_name r = package_name pv then pv else r) rows) =
   find (\<lambda>r. package_name r = n) rows"
  by (induction rows) auto

lemma find_save:
  "find (\<lambda>r. package_name r = n) (save pv rows) =
     (if n = package_name pv then Some pv else find (\<lambda>r. package_name r = n) rows)"
proof (cases "package_name pv \<in> set (map package_name rows)")
  case True
  then show ?thesis
    using find_replace_same [of pv rows] find_replace_other [of n pv rows]
    by (simp add: save_def)
next
  case False
  then have "find (\<lambda>r. package_name r = package_name pv) rows = None"
    using find_None_names [of "package_name pv" rows] by blast
  with False show ?thesis
    by (auto simp: save_def find_app split: option.splits)
qed

lemma find_fold_save_other:
  "n \<notin> set (map package_name us) \<Longrightarrow>
   find (\<lambda>r. package_name r = n) (fold save us rows) = find (\<lambda>r. package_name r = n) rows"
  by (induction us arbitrary: rows) (auto simp: find_save)

lemma find_fold_save_member:
  "distinct (map package_name us) \<Longrightarrow> u \<in> set us \<Longrightarrow>
   find (\<lambda>r. package_name r = package_name u) (fold save us rows) = Some u"
proof (induction us arbitrary: rows)
  case Nil
  then show ?case by simp
next
  case (Cons x xs)
  show ?case
  proof (cases "u = x")
    case True
    then have "package_name u \<notin> set (map package_name xs)"
      using Cons.prems(1) by simp
    then show ?thesis
      using True by (simp add: find_fold_save_other find_save)
  next
    case False
    then show ?thesis using Cons by simp
  qed
qed

lemma objects_get_find:
  "objects_get (Some n) rows
     = (case find (\<lambda>r. package_name r = n) rows of None \<Rightarrow> Inl DoesNotExist | Some r \<Rightarrow> Inr r)"
  by (simp add: objects_get_def)

lemma updates_names:
  "n \<in> set (map package_name (updates api t pvs)) \<Longrightarrow>
     \<exists>pv\<in>set pvs. package_name pv = n \<and> \<not> is_editable pv
        \<and> (\<exists>d. query api n = Inr d)"
proof -
  assume "n \<in> set (map package_name (updates api t pvs))"
  then obtain u where "u \<in> set (updates api t pvs)" and n: "package_name u = n" by auto
  then obtain pv where "pv \<in> set pvs" and att: "attempt api t pv = Some u"
    by (auto simp: updates_member)
  from att have "package_name pv = n \<and> \<not> is_editable pv \<and> (\<exists>d. query api n = Inr d)"
    using n attempt_Some [of api t pv u] by auto
  with \<open>pv \<in> set pvs\<close> show ?thesis by (rule_tac x = pv in bexI)
qed

lemma updates_distinct:
  "distinct (map package_name pvs) \<Longrightarrow> distinct (map package_name (updates api t pvs))"
proof (induction pvs)
  case Nil
  then show ?case by simp
next
  case (Cons pv pvs)
  show ?case
  proof (cases "attempt api t pv")
    case None
    then show ?thesis using Cons by (simp add: updates_Cons)
  next
    case (Some u)
    then have "package_name u = package_name pv" by (simp add: attempt_Some)
    moreover have "package_name pv \<notin> set (map package_name (updates api t pvs))"
    proof
      assume "package_name pv \<in> set (map package_name (updates api t pvs))"
      then obtain q where q: "q \<in> set pvs" and eq: "package_name q = package_name pv"
        using updates_names [of "package_name pv" api t pvs] by blast
      from q have "package_name q \<in> set (map package_name pvs)" by simp
      with eq Cons.prems show False by simp
    qed
    ultimately show ?thesis using Cons Some by (simp add: updates_Cons)
  qed
qed

lemma fold_append_result:
  "fold (\<lambda>p. append_result (diff_status p) p) us res key =
     (if filter (\<lambda>p. diff_status p = key) us = [] then res key
      else Some (listed res key @ filter (\<lambda>p. diff_status p = key) us))"
  by (induction us arbitrary: res) (auto simp: append_result_def listed_def)


lemma selected_emit [simp]: "selected packages (emit l m w) = selected packages w"
  by (simp add: selected_def split: option.splits list.splits)

lemma remote_world:
  "snd (remote api packages w)
     = snd (remote_loop api (selected packages w) Map.empty (emit INFO Fetching_latest_data w))"
  by (simp add: remote_def Let_def split_def)

lemma remote_summary:
  "fst (remote api packages w)
     = \<lparr> groups = fst (remote_loop api (selected packages w) Map.empty
                        (emit INFO Fetching_latest_data w)),
         refreshed_at = clock w \<rparr>"
  using remote_loop_closed [of api "selected packages w" Map.empty "emit INFO Fetching_latest_data w"]
  by (simp add: remote_def Let_def split_def)

lemma remote_clock: "clock (snd (remote api packages w)) = clock w"
  using remote_loop_closed [of api "selected packages w" Map.empty "emit INFO Fetching_latest_data w"]
  by (simp add: remote_world)

lemma remote_requests:
  "requests (snd (remote api packages w))
     = requests w @ map package_name (exclude_editable (selected packages w))"
  using remote_loop_closed [of api "selected packages w" Map.empty "emit INFO Fetching_latest_data w"]
  by (simp add: remote_world)

lemma remote_table:
  "table (snd (remote api packages w))
     = fold save (updates api (clock w) (selected packages w)) (table w)"
  using remote_loop_closed [of api "selected packages w" Map.empty "emit INFO Fetching_latest_data w"]
  by (simp add: remote_world)

lemma remote_groups:
  "groups (fst (remote api packages w)) key =
     (if filter (\<lambda>p. diff_status p = key) (updates api (clock w) (selected packages w)) = []
      then None
      else Some (filter (\<lambda>p. diff_status p = key) (updates api (clock w) (selected packages w))))"
  using remote_loop_closed [of api "selected packages w" Map.empty "emit INFO Fetching_latest_data w"]
  by (simp add: remote_summary fold_append_result listed_def)

lemma remote_refreshed_at: "refreshed_at (fst (remote api packages w)) = clock w"
  by (simp add: remote_summary)

lemma remote_listed:
  "listed (groups (fst (remote api packages w))) key
     = filter (\<lambda>p. diff_status p = key) (updates api (clock w) (selected packages w))"
  by (simp add: listed_def remote_groups)

lemma exclude_editable_idem [simp]: "exclude_editable (exclude_editable rows) = exclude_editable rows"
  by (simp add: exclude_editable_def)

text \<open>
  C7: called without records, \<open>remote\<close> processes exactly the stored records that are
  not editable: they are the selected batch, the index is asked about each of them in
  table order and about nothing else, and the run equals the run on that explicit list.
\<close>

theorem remote_default_selection:
  "selected None w = filter (\<lambda>r. \<not> is_editable r) (table w)
   \<and> requests (snd (remote api None w))
       = requests w @ map package_name (filter (\<lambda>r. \<not> is_editable r) (table w))
   \<and> remote api None w = remote api (Some (filter (\<lambda>r. \<not> is_editable r) (table w))) w"
proof -
  have a: "selected None w = filter (\<lambda>r. \<not> is_editable r) (table w)"
    by (simp add: selected_def exclude_editable_def)
  have b: "selected (Some (filter (\<lambda>r. \<not> is_editable r) (table w))) v = selected None v"
    if "table v = table w" for v
    using that by (simp add: selected_def exclude_editable_def split: list.splits)
  have "remote api None w = remote api (Some (filter (\<lambda>r. \<not> is_editable r) (table w))) w"
    by (simp add: remote_def b)
  moreover have "requests (snd (remote api None w))
       = requests w @ map package_name (filter (\<lambda>r. \<not> is_editable r) (table w))"
    using remote_requests [of api None w] by (simp add: a) (simp add: exclude_editable_def)
  ultimately show ?thesis using a by simp
qed

text \<open>
  C4: the dictionary that \<open>remote\<close> returns maps a diff status to the records refreshed
  in this run whose status it is, in batch order; a status without such a record is no
  key. \<open>refreshed_at\<close> is the clock reading at the end of the run. A refreshed
  record is listed under its own status only, and a record for which the index failed
  is listed under none.
\<close>

theorem remote_result_mapping:
  "groups (fst (remote api packages w)) key =
     (let us = filter (\<lambda>p. diff_status p = key) (updates api (clock w) (selected packages w))
      in if us = [] then None else Some us)
   \<and> refreshed_at (fst (remote api packages w)) = clock (snd (remote api packages w))
   \<and> (\<forall>u\<in>set (updates api (clock w) (selected packages w)).
         u \<in> set (listed (groups (fst (remote api packages w))) key) \<longleftrightarrow> key = diff_status u)
   \<and> (\<forall>pv\<in>set (selected packages w).
         \<not> is_editable pv \<longrightarrow> isl (query api (package_name pv)) \<longrightarrow>
         pv \<notin> set (listed (groups (fst (remote api packages w))) key))"
proof -
  have "pv \<notin> set (updates api (clock w) (selected packages w))"
    if "isl (query api (package_name pv))" for pv
  proof
    assume "pv \<in> set (updates api (clock w) (selected packages w))"
    then obtain p where "attempt api (clock w) p = Some pv"
      by (auto simp: updates_member)
    then have "\<exists>d. query api (package_name pv) = Inr d"
      using attempt_Some [of api "clock w" p pv] by auto
    with that show False by auto
  qed
  then show ?thesis
    by (auto simp: remote_groups remote_listed remote_clock remote_refreshed_at Let_def)
qed

theorem remote_result_mapping_witness:
  "map package_name (listed (groups (fst (remote demo_api None demo_world))) Major) = [''requests'']
   \<and> map package_name (listed (groups (fst (remote demo_api None demo_world))) Up_to_date) = [''six'']
   \<and> groups (fst (remote demo_api None demo_world)) Unknown = None
   \<and> refreshed_at (fst (remote demo_api None demo_world)) = 1
   \<and> pv_flaky \<in> set (selected None demo_world) \<and> \<not> is_editable pv_flaky
   \<and> isl (query demo_api (package_name pv_flaky))
   \<and> pv_flaky \<notin> set (listed (groups (fst (remote demo_api None demo_world))) Unknown)"
  using remote_result_mapping [where api = demo_api and packages = None and w = demo_world and key = Unknown]
  by (simp add: remote_defs demo_defs)

text \<open>
  C1: when the index fails for a record of the batch, the record stored under its name
  is what it was, the error is logged with the record, and the run goes on: the index
  is asked about every non-editable record of the batch, and each record the index
  answers is listed under its status and, names in the batch being distinct, stored
  in its refreshed form.
\<close>

theorem remote_isolates_failures:
  assumes "pv \<in> set (selected packages w)" and "\<not> is_editable pv"
    and "query api (package_name pv) = Inl e"
  shows "objects_get (Some (package_name pv)) (table (snd (remote api packages w)))
           = objects_get (Some (package_name pv)) (table w)
         \<and> (ERROR, Update_failed pv e) \<in> set (logs (snd (remote api packages w)))
         \<and> requests (snd (remote api packages w))
             = requests w @ map package_name (exclude_editable (selected packages w))
         \<and> (\<forall>q\<in>set (selected packages w). \<forall>d.
               \<not> is_editable q \<longrightarrow> query api (package_name q) = Inr d \<longrightarrow>
               refreshed api d (clock w) q
                 \<in> set (listed (groups (fst (remote api packages w)))
                          (diff_status (refreshed api d (clock w) q)))
               \<and> (distinct (map package_name (selected packages w)) \<longrightarrow>
                    objects_get (Some (package_name q)) (table (snd (remote api packages w)))
                      = Inr (refreshed api d (clock w) q)))"
proof -
  let ?us = "updates api (clock w) (selected packages w)"
  have "package_name pv \<notin> set (map package_name ?us)"
  proof
    assume "package_name pv \<in> set (map package_name ?us)"
    then have "\<exists>d. query api (package_name pv) = Inr d"
      using updates_names [of "package_name pv" api "clock w" "selected packages w"] by blast
    with assms(3) show False by simp
  qed
  then have unchanged: "objects_get (Some (package_name pv)) (table (snd (remote api packages w)))
           = objects_get (Some (package_name pv)) (table w)"
    by (simp add: objects_get_find remote_table find_fold_save_other)
  have logged: "(ERROR, Update_failed pv e) \<in> set (logs (snd (remote api packages w)))"
    using assms by (simp add: remote_world remote_loop_failure_logged)
  have ok: "refreshed api d (clock w) q
                 \<in> set (listed (groups (fst (remote api packages w)))
                          (diff_status (refreshed api d (clock w) q)))
            \<and> (distinct (map package_name (selected packages w)) \<longrightarrow>
                    objects_get (Some (package_name q)) (table (snd (remote api packages w)))
                      = Inr (refreshed api d (clock w) q))"
    if q: "q \<in> set (selected packages w)" "\<not> is_editable q" "query api (package_name q) = Inr d"
    for q d
  proof -
    have "attempt api (clock w) q = Some (refreshed api d (clock w) q)"
      using q by (simp add: attempt_def)
    with q(1) have mem: "refreshed api d (clock w) q \<in> set ?us"
      by (auto simp: updates_member)
    have "find (\<lambda>r. package_name r = package_name q) (fold save ?us (table w))
            = Some (refreshed api d (clock w) q)"
      if "distinct (map package_name (selected packages w))"
      using find_fold_save_member [OF updates_distinct [OF that] mem, of "table w"] by simp
    with mem show ?thesis
      by (simp add: remote_listed objects_get_find remote_table)
  qed
  show ?thesis
    using unchanged logged ok remote_requests [of api packages w] by blast
qed


theorem remote_isolates_failures_witness:
  "pv_flaky \<in> set (selected None demo_world) \<and> \<not> is_editable pv_flaky
   \<and> query demo_api (package_name pv_flaky) = Inl IndexUnavailable
   \<and> distinct (map package_name (selected None demo_world))
   \<and> objects_get (Some ''flaky'') (table (snd (remote demo_api None demo_world))) = Inr pv_flaky
   \<and> (ERROR, Update_failed pv_flaky IndexUnavailable)
        \<in> set (logs (snd (remote demo_api None demo_world)))
   \<and> requests (snd (remote demo_api None demo_world)) = [''requests'', ''flaky'', ''six'']
   \<and> map diff_status (table (snd (remote demo_api None demo_world)))
        = [Major, Unknown, Unknown, Up_to_date]
   \<and> map package_name (listed (groups (fst (remote demo_api None demo_world))) Major)
        = [''requests'']"
proof -
  have m: "pv_flaky \<in> set (selected None demo_world)"
    by (simp add: selected_def exclude_editable_def demo_defs)
  have n: "\<not> is_editable pv_flaky" by (simp add: demo_defs)
  have q: "query demo_api (package_name pv_flaky) = Inl IndexUnavailable"
    by (simp add: demo_defs)
  show ?thesis
    using remote_isolates_failures [OF m n q] m n q
    by (simp add: remote_defs demo_defs)
qed

lemma find_distinct:
  "distinct (map package_name rows) \<Longrightarrow> r \<in> set rows \<Longrightarrow>
   find (\<lambda>x. package_name x = package_name r) rows = Some r"
proof (induction rows)
  case Nil
  then show ?case by simp
next
  case (Cons a rows)
  show ?case
  proof (cases "a = r")
    case True
    then show ?thesis by simp
  next
    case False
    then have mem: "r \<in> set rows" using Cons.prems(2) by simp
    then have "package_name r \<in> set (map package_name rows)" by simp
    then have "package_name a \<noteq> package_name r" using Cons.prems(1) by auto
    then show ?thesis using Cons mem by simp
  qed
qed

lemma same_name_same_row:
  "distinct (map package_name rows) \<Longrightarrow> p \<in> set rows \<Longrightarrow> r \<in> set rows \<Longrightarrow>
   package_name p = package_name r \<Longrightarrow> p = r"
proof -
  assume d: "distinct (map package_name rows)" and p: "p \<in> set rows" and r: "r \<in> set rows"
    and eq: "package_name p = package_name r"
  have "find (\<lambda>x. package_name x = package_name r) rows = Some p"
    using find_distinct [OF d p] eq by simp
  moreover have "find (\<lambda>x. package_name x = package_name r) rows = Some r"
    using find_distinct [OF d r] .
  ultimately show "p = r" by simp
qed

lemma check_pypi_requests:
  "\<exists>extra. requests (snd (check_pypi api ps w)) = requests w @ extra
      \<and> set extra \<subseteq> set (map package_name (exclude_editable ps))"
proof (induction ps arbitrary: w)
  case Nil
  show ?case by simp
next
  case (Cons p ps)
  show ?case
  proof (cases "is_editable p")
    case True
    then show ?thesis
      using Cons.IH [of "emit DEBUG (Ignoring_version_update (package_name p)) w"]
      by (auto simp: exclude_editable_def)
  next
    case False
    show ?thesis
    proof (cases "query api (package_name p)")
      case (Inl e)
      with False show ?thesis
        by (simp add: update_from_pypi_eq exclude_editable_def)
    next
      case (Inr d)
      obtain extra where
        "requests (snd (check_pypi api ps
            (w\<lparr>requests := requests w @ [package_name p],
               table := save (refreshed api d (clock w) p) (table w)\<rparr>)))
         = (requests w @ [package_name p]) @ extra"
        and "set extra \<subseteq> set (map package_name (exclude_editable ps))"
        using Cons.IH [of "w\<lparr>requests := requests w @ [package_name p],
               table := save (refreshed api d (clock w) p) (table w)\<rparr>"]
        by auto
      with False Inr show ?thesis
        by (intro exI [of _ "package_name p # extra"])
           (auto simp: update_from_pypi_eq exclude_editable_def)
    qed
  qed
qed

lemma check_pypi_other_rows:
  "n \<notin> set (map package_name (exclude_editable ps)) \<Longrightarrow>
   find (\<lambda>r. package_name r = n) (table (snd (check_pypi api ps w)))
     = find (\<lambda>r. package_name r = n) (table w)"
proof (induction ps arbitrary: w)
  case Nil
  show ?case by simp
next
  case (Cons p ps)
  have rest: "n \<notin> set (map package_name (exclude_editable ps))"
    using Cons.prems by (auto simp: exclude_editable_def)
  show ?case
  proof (cases "is_editable p")
    case True
    then show ?thesis
      using Cons.IH [OF rest, of "emit DEBUG (Ignoring_version_update (package_name p)) w"]
      by simp
  next
    case False
    then have ne: "n \<noteq> package_name p"
      using Cons.prems by (auto simp: exclude_editable_def)
    show ?thesis
    proof (cases "query api (package_name p)")
      case (Inl e)
      with False show ?thesis by (simp add: update_from_pypi_eq)
    next
      case (Inr d)
      with False ne show ?thesis
        using Cons.IH [OF rest, of "w\<lparr>requests := requests w @ [package_name p],
               table := save (refreshed api d (clock w) p) (table w)\<rparr>"]
        by (simp add: update_from_pypi_eq find_save)
    qed
  qed
qed

text \<open>
  The two callers of \<open>update_from_pypi\<close> skip editable records. An editable stored
  record is not in the default batch of \<open>remote\<close>. When the records handed to \<open>remote\<close>
  or to the admin action \<open>check_pypi\<close> are stored records, neither asks the index about
  an editable record, neither changes its stored fields, and \<open>remote\<close> lists it under no
  status.
\<close>

theorem sync_skips_editable_records:
  assumes "is_editable r" and "r \<in> set (table w)"
    and "distinct (map package_name (table w))"
    and "set (selected packages w) \<subseteq> set (table w)"
    and "set qs \<subseteq> set (table w)"
  shows "r \<notin> set (selected None w)
         \<and> requests (snd (remote api packages w))
             = requests w @ map package_name (exclude_editable (selected packages w))
         \<and> package_name r \<notin> set (map package_name (exclude_editable (selected packages w)))
         \<and> objects_get (Some (package_name r)) (table (snd (remote api packages w))) = Inr r
         \<and> r \<notin> set (listed (groups (fst (remote api packages w))) key)
         \<and> (\<exists>extra. requests (snd (check_pypi api qs w)) = requests w @ extra
               \<and> package_name r \<notin> set extra)
         \<and> objects_get (Some (package_name r)) (table (snd (check_pypi api qs w))) = Inr r"
proof -
  have stored: "find (\<lambda>x. package_name x = package_name r) (table w) = Some r"
    using assms(2,3) by (rule find_distinct [rotated])
  have apart: "package_name r \<notin> set (map package_name (exclude_editable ps))"
    if "set ps \<subseteq> set (table w)" for ps
  proof
    assume "package_name r \<in> set (map package_name (exclude_editable ps))"
    then obtain p where p: "p \<in> set ps" "\<not> is_editable p" "package_name p = package_name r"
      by (auto simp: exclude_editable_def)
    with that have "p \<in> set (table w)" by auto
    with p(3) assms(2,3) have "p = r" by (blast intro: same_name_same_row)
    with p(2) assms(1) show False by simp
  qed
  have a: "r \<notin> set (selected None w)"
    using assms(1) by (simp add: selected_def exclude_editable_def)
  have "package_name r \<notin> set (map package_name (updates api (clock w) (selected packages w)))"
  proof
    assume "package_name r
              \<in> set (map package_name (updates api (clock w) (selected packages w)))"
    then obtain p where p: "p \<in> set (selected packages w)" "package_name p = package_name r"
      "\<not> is_editable p"
      using updates_names [of "package_name r" api "clock w" "selected packages w"] by blast
    then have "p \<in> set (exclude_editable (selected packages w))"
      by (simp add: exclude_editable_def)
    then have "package_name p \<in> set (map package_name (exclude_editable (selected packages w)))"
      by simp
    with p(2) apart [OF assms(4)] show False by simp
  qed
  then have b: "objects_get (Some (package_name r)) (table (snd (remote api packages w))) = Inr r"
    using stored by (simp add: objects_get_find remote_table find_fold_save_other)
  have c: "r \<notin> set (listed (groups (fst (remote api packages w))) key)"
  proof
    assume "r \<in> set (listed (groups (fst (remote api packages w))) key)"
    then have "r \<in> set (updates api (clock w) (selected packages w))"
      by (simp add: remote_listed)
    then obtain p where "attempt api (clock w) p = Some r"
      by (auto simp: updates_member)
    then have "\<not> is_editable r" using attempt_Some [of api "clock w" p r] by simp
    with assms(1) show False by simp
  qed
  obtain extra where "requests (snd (check_pypi api qs w)) = requests w @ extra"
    and "set extra \<subseteq> set (map package_name (exclude_editable qs))"
    using check_pypi_requests [of api qs w] by blast
  with apart [OF assms(5)]
  have d: "\<exists>extra. requests (snd (check_pypi api qs w)) = requests w @ extra
               \<and> package_name r \<notin> set extra"
    by blast
  have e: "objects_get (Some (package_name r)) (table (snd (check_pypi api qs w))) = Inr r"
    using stored apart [OF assms(5)]
    by (simp add: objects_get_find check_pypi_other_rows)
  show ?thesis
    using a b c d e apart [OF assms(4)] remote_requests [of api packages w] by blast
qed


theorem sync_skips_editable_records_witness:
  "is_editable pv_mylib \<and> pv_mylib \<in> set (table demo_world)
   \<and> distinct (map package_name (table demo_world))
   \<and> set (selected (Some [pv_mylib, pv_requests]) demo_world) \<subseteq> set (table demo_world)
   \<and> set [pv_mylib, pv_six] \<subseteq> set (table demo_world)
   \<and> requests (snd (remote demo_api (Some [pv_mylib, pv_requests]) demo_world)) = [''requests'']
   \<and> objects_get (Some ''mylib'')
        (table (snd (remote demo_api (Some [pv_mylib, pv_requests]) demo_world))) = Inr pv_mylib
   \<and> requests (snd (check_pypi demo_api [pv_mylib, pv_six] demo_world)) = [''six'']
   \<and> objects_get (Some ''mylib'')
        (table (snd (check_pypi demo_api [pv_mylib, pv_six] demo_world))) = Inr pv_mylib
   \<and> latest_version pv_mylib = None \<and> next_version pv_mylib = None
   \<and> diff_status pv_mylib = Unknown"
proof -
  have a: "is_editable pv_mylib" by (simp add: demo_defs)
  have b: "pv_mylib \<in> set (table demo_world)" by (simp add: demo_defs)
  have c: "distinct (map package_name (table demo_world))" by (simp add: demo_defs)
  have d: "set (selected (Some [pv_mylib, pv_requests]) demo_world) \<subseteq> set (table demo_world)"
    by (simp add: selected_def demo_defs)
  have e: "set [pv_mylib, pv_six] \<subseteq> set (table demo_world)" by (simp add: demo_defs)
  show ?thesis
    using sync_skips_editable_records [OF a b c d e, where api = demo_api and key = Unknown] a b c d e
    by (simp add: remote_defs demo_defs)
qed

text \<open>
  C2: no operation queries the index for an editable record. \<open>remote\<close> and
  \<open>check_pypi\<close> keep to it, as shown above, and the index-derived fields of an editable
  record stay as they are. The admin field \<open>available_updates\<close> does not: shown for the
  editable record \<open>mylib\<close>, it asks the index about \<open>mylib\<close>.
\<close>

theorem available_updates_queries_editable:
  "is_editable pv_mylib
   \<and> pv_mylib \<in> set (table demo_world)
   \<and> requests demo_world = []
   \<and> requests (snd (available_updates demo_api pv_mylib demo_world)) = [''mylib'']
   \<and> requests (snd (remote demo_api (Some [pv_mylib]) demo_world)) = []
   \<and> requests (snd (check_pypi demo_api [pv_mylib] demo_world)) = []"
  by (simp add: available_updates_def remote_defs demo_defs)

section \<open>Running \<open>remote\<close> twice\<close>

lemma names_save:
  "set (map package_name (save pv rows)) = insert (package_name pv) (set (map package_name rows))"
  by (auto simp: save_def)

lemma names_fold_save:
  "set (map package_name (fold save us rows))
     = set (map package_name rows) \<union> set (map package_name us)"
  by (induction us arbitrary: rows) (auto simp: names_save simp del: set_map)

lemma save_member:
  "r \<in> set (save u rows) \<Longrightarrow> r = u \<or> (r \<in> set rows \<and> package_name r \<noteq> package_name u)"
proof (cases "package_name u \<in> set (map package_name rows)")
  case True
  assume "r \<in> set (save u rows)"
  with True show ?thesis by (auto simp: save_def)
next
  case False
  assume "r \<in> set (save u rows)"
  with False have "r = u \<or> r \<in> set rows" by (auto simp: save_def)
  moreover have "package_name r \<noteq> package_name u" if "r \<in> set rows"
  proof
    assume eq: "package_name r = package_name u"
    from that have "package_name r \<in> set (map package_name rows)" by simp
    with eq False show False by simp
  qed
  ultimately show ?thesis by blast
qed

lemma save_replaces:
  "package_name u \<in> set (map package_name rows) \<Longrightarrow>
   save u rows = map (\<lambda>r. if package_name r = package_name u then u else r) rows"
  by (simp add: save_def)

text \<open>After a batch of saves, a row that carries the name of a saved record is the last
  record saved under that name, and any other row is an old one.\<close>

lemma fold_save_last:
  "r \<in> set (fold save us rows) \<Longrightarrow> package_name r \<in> set (map package_name us) \<Longrightarrow>
   find (\<lambda>u. package_name u = package_name r) (rev us) = Some r"
proof (induction us arbitrary: r rule: rev_induct)
  case Nil
  then show ?case by simp
next
  case (snoc u us)
  from snoc.prems(1) have "r \<in> set (save u (fold save us rows))" by simp
  then consider "r = u" | "r \<in> set (fold save us rows)" "package_name r \<noteq> package_name u"
    using save_member by blast
  then show ?case
  proof cases
    case 1
    then show ?thesis by simp
  next
    case 2
    then have "package_name r \<in> set (map package_name us)"
      using snoc.prems(2) by auto
    with 2 show ?thesis
      using snoc.IH [of r] by simp
  qed
qed

lemma fold_save_old:
  "r \<in> set (fold save us rows) \<Longrightarrow> package_name r \<notin> set (map package_name us) \<Longrightarrow>
   r \<in> set rows"
proof (induction us arbitrary: r rule: rev_induct)
  case Nil
  then show ?case by simp
next
  case (snoc u us)
  from snoc.prems(1) have "r \<in> set (save u (fold save us rows))" by simp
  moreover have "r \<noteq> u" using snoc.prems(2) by auto
  ultimately have "r \<in> set (fold save us rows)"
    using save_member by blast
  then show ?case using snoc.IH [of r] snoc.prems(2) by simp
qed

lemma find_name_kept:
  "(case find (\<lambda>u. package_name u = package_name r) us of None \<Rightarrow> r | Some u \<Rightarrow> u) = x
   \<Longrightarrow> package_name x = package_name r"
  by (auto split: option.splits dest: find_Some_name)

lemma fold_save_replaces:
  "set (map package_name us) \<subseteq> set (map package_name rows) \<Longrightarrow>
   fold save us rows
     = map (\<lambda>r. case find (\<lambda>u. package_name u = package_name r) (rev us) of
                   None \<Rightarrow> r | Some u \<Rightarrow> u) rows"
proof (induction us rule: rev_induct)
  case Nil
  show ?case by simp
next
  case (snoc u us)
  let ?g = "\<lambda>r. case find (\<lambda>u. package_name u = package_name r) (rev us) of
                   None \<Rightarrow> r | Some u \<Rightarrow> u"
  have ih: "fold save us rows = map ?g rows"
    using snoc by simp
  have keep: "package_name (?g r) = package_name r" for r
    using find_name_kept [of r "rev us" "?g r"] by simp
  then have "map package_name (map ?g rows) = map package_name rows"
    by (simp add: comp_def)
  then have "package_name u \<in> set (map package_name (map ?g rows))"
    using snoc.prems by (simp del: set_map map_map)
  then have "save u (map ?g rows)
               = map (\<lambda>r. if package_name r = package_name u then u else r) (map ?g rows)"
    by (rule save_replaces)
  then show ?case
    using keep by (simp add: ih comp_def)
qed


lemma attempt_stamp:
  "attempt api t p = map_option (\<lambda>u. u\<lparr>checked_pypi_at := Some t\<rparr>) (attempt api t1 p)"
  by (cases "query api (package_name p)") (simp_all add: attempt_def refreshed_def Let_def)

lemma updates_stamp:
  "updates api t pvs = map (\<lambda>u. u\<lparr>checked_pypi_at := Some t\<rparr>) (updates api t1 pvs)"
proof (induction pvs)
  case Nil
  show ?case by simp
next
  case (Cons p pvs)
  then show ?case
    using attempt_stamp [of api t p t1]
    by (cases "attempt api t1 p") (simp_all add: updates_Cons)
qed

lemma find_map_stamp:
  "find (\<lambda>u. package_name u = n) (map (\<lambda>u. u\<lparr>checked_pypi_at := Some t\<rparr>) xs)
     = map_option (\<lambda>u. u\<lparr>checked_pypi_at := Some t\<rparr>) (find (\<lambda>u. package_name u = n) xs)"
  by (induction xs) simp_all

lemma find_unique_value:
  "\<exists>x\<in>set xs. P x \<Longrightarrow> \<forall>x\<in>set xs. P x \<longrightarrow> x = v \<Longrightarrow> find P xs = Some v"
  by (induction xs) auto

lemma attempt_again:
  "attempt api t1 p = Some r \<Longrightarrow> attempt api t r = Some (r\<lparr>checked_pypi_at := Some t\<rparr>)"
  by (cases "query api (package_name p)")
     (auto simp: attempt_def refreshed_def Let_def split: if_splits)

lemma attempt_time:
  "attempt api t q = Some u \<Longrightarrow> \<exists>u1. attempt api t1 q = Some u1"
  by (cases "query api (package_name q)") (auto simp: attempt_def split: if_splits)

lemma name_in_names: "r \<in> set rows \<Longrightarrow> package_name r \<in> set (map package_name rows)"
  by simp

text \<open>The second batch of saves only stamps the rows that the first batch wrote.\<close>

lemma second_saves:
  assumes sub: "set (map package_name us2) \<subseteq> set (map package_name rows1)"
    and each: "\<And>r. r \<in> set rows1 \<Longrightarrow>
       find (\<lambda>u. package_name u = package_name r) (rev us2)
         = (if package_name r \<in> set (map package_name us1)
            then Some (r\<lparr>checked_pypi_at := Some t\<rparr>) else None)"
  shows "fold save us2 rows1
           = map (\<lambda>r. if package_name r \<in> set (map package_name us1)
                       then r\<lparr>checked_pypi_at := Some t\<rparr> else r) rows1"
proof -
  have "fold save us2 rows1
     = map (\<lambda>r. case find (\<lambda>u. package_name u = package_name r) (rev us2) of
                   None \<Rightarrow> r | Some u \<Rightarrow> u) rows1"
    using sub by (rule fold_save_replaces)
  also have "\<dots> = map (\<lambda>r. if package_name r \<in> set (map package_name us1)
                       then r\<lparr>checked_pypi_at := Some t\<rparr> else r) rows1"
    by (rule map_cong) (simp_all add: each del: set_map)
  finally show ?thesis .
qed

lemma second_run_explicit:
  "fold save (updates api t batch) (fold save (updates api t1 batch) rows)
     = map (\<lambda>r. if package_name r \<in> set (map package_name (updates api t1 batch))
                 then r\<lparr>checked_pypi_at := Some t\<rparr> else r)
         (fold save (updates api t1 batch) rows)"
proof (rule second_saves)
  let ?us1 = "updates api t1 batch"
  have st: "updates api t batch = map (\<lambda>u. u\<lparr>checked_pypi_at := Some t\<rparr>) ?us1"
    by (rule updates_stamp)
  have "map package_name (updates api t batch) = map package_name ?us1"
    by (simp add: st comp_def)
  then show "set (map package_name (updates api t batch))
          \<subseteq> set (map package_name (fold save ?us1 rows))"
    by (simp add: names_fold_save del: set_map)
  fix r assume r: "r \<in> set (fold save ?us1 rows)"
  show "find (\<lambda>u. package_name u = package_name r) (rev (updates api t batch))
         = (if package_name r \<in> set (map package_name ?us1)
            then Some (r\<lparr>checked_pypi_at := Some t\<rparr>) else None)"
  proof (cases "package_name r \<in> set (map package_name ?us1)")
    case True
    then have "find (\<lambda>u. package_name u = package_name r) (rev ?us1) = Some r"
      using r by (rule fold_save_last [rotated])
    with True show ?thesis
      by (simp add: st rev_map find_map_stamp del: set_map)
  next
    case False
    then have "package_name r \<notin> set (map package_name (rev ?us1))" by simp
    then have "find (\<lambda>u. package_name u = package_name r) (rev ?us1) = None"
      using find_None_names [of "package_name r" "rev ?us1"] by blast
    with False show ?thesis
      by (simp add: st rev_map find_map_stamp del: set_map)
  qed
qed


lemma second_run_default:
  "fold save (updates api t (fold save (updates api t1 rows) rows))
        (fold save (updates api t1 rows) rows)
     = map (\<lambda>r. if package_name r \<in> set (map package_name (updates api t1 rows))
                 then r\<lparr>checked_pypi_at := Some t\<rparr> else r)
         (fold save (updates api t1 rows) rows)"
proof (rule second_saves)
  let ?us1 = "updates api t1 rows"
  let ?rows1 = "fold save ?us1 rows"
  let ?us2 = "updates api t ?rows1"
  show "set (map package_name ?us2) \<subseteq> set (map package_name ?rows1)"
  proof
    fix n assume "n \<in> set (map package_name ?us2)"
    then obtain q where q: "q \<in> set ?rows1" and eq: "package_name q = n"
      using updates_names [of n api t ?rows1] by blast
    from q have "package_name q \<in> set (map package_name ?rows1)" by (rule name_in_names)
    with eq show "n \<in> set (map package_name ?rows1)" by simp
  qed
  fix r assume r: "r \<in> set ?rows1"
  have source: "\<exists>q\<in>set ?rows1. attempt api t q = Some x \<and> package_name q = package_name x"
    if "x \<in> set ?us2" for x
  proof -
    from that obtain q where q: "q \<in> set ?rows1" and a: "attempt api t q = Some x"
      by (auto simp: updates_member)
    from a have "package_name x = package_name q" by (simp add: attempt_Some)
    with q a show ?thesis by auto
  qed
  show "find (\<lambda>u. package_name u = package_name r) (rev ?us2)
         = (if package_name r \<in> set (map package_name ?us1)
            then Some (r\<lparr>checked_pypi_at := Some t\<rparr>) else None)"
  proof (cases "package_name r \<in> set (map package_name ?us1)")
    case True
    have last_r: "find (\<lambda>u. package_name u = package_name r) (rev ?us1) = Some r"
      using r True by (rule fold_save_last)
    then have "r \<in> set ?us1" by (auto dest: find_Some_name)
    then obtain p where "attempt api t1 p = Some r"
      by (auto simp: updates_member)
    then have again: "attempt api t r = Some (r\<lparr>checked_pypi_at := Some t\<rparr>)"
      by (rule attempt_again)
    with r have mem: "r\<lparr>checked_pypi_at := Some t\<rparr> \<in> set ?us2"
      by (auto simp: updates_member)
    have "\<exists>x\<in>set (rev ?us2). package_name x = package_name r"
      using mem by (intro bexI [of _ "r\<lparr>checked_pypi_at := Some t\<rparr>"]) simp_all
    moreover have "\<forall>x\<in>set (rev ?us2). package_name x = package_name r
                     \<longrightarrow> x = r\<lparr>checked_pypi_at := Some t\<rparr>"
    proof (intro ballI impI)
      fix x assume x: "x \<in> set (rev ?us2)" and nx: "package_name x = package_name r"
      then obtain q where q: "q \<in> set ?rows1" and a: "attempt api t q = Some x"
        and nq: "package_name q = package_name x"
        using source [of x] by auto
      have nqr: "package_name q = package_name r"
        using nq nx by (rule trans)
      have "package_name q \<in> set (map package_name ?us1)"
        using True unfolding nqr .
      then have "find (\<lambda>u. package_name u = package_name q) (rev ?us1) = Some q"
        using q by (rule fold_save_last [rotated])
      then have "find (\<lambda>u. package_name u = package_name r) (rev ?us1) = Some q"
        unfolding nqr .
      with last_r have "q = r" by (metis option.inject)
      with a again show "x = r\<lparr>checked_pypi_at := Some t\<rparr>" by (metis option.inject)
    qed
    ultimately have "find (\<lambda>u. package_name u = package_name r) (rev ?us2)
                       = Some (r\<lparr>checked_pypi_at := Some t\<rparr>)"
      by (rule find_unique_value)
    with True show ?thesis by (simp del: set_map)
  next
    case False
    have "package_name r \<notin> set (map package_name (rev ?us2))"
    proof
      assume "package_name r \<in> set (map package_name (rev ?us2))"
      then obtain x where x: "x \<in> set ?us2" and nx: "package_name x = package_name r"
        by auto
      then obtain q where q: "q \<in> set ?rows1" and a: "attempt api t q = Some x"
        and nq: "package_name q = package_name x"
        using source [of x] by auto
      have nqr: "package_name q = package_name r"
        using nq nx by (rule trans)
      have "package_name q \<notin> set (map package_name ?us1)"
        using False unfolding nqr .
      with q have old: "q \<in> set rows" by (rule fold_save_old)
      obtain u1 where u1: "attempt api t1 q = Some u1"
        using attempt_time [OF a] by blast
      with old have "u1 \<in> set ?us1" by (auto simp: updates_member)
      then have "package_name u1 \<in> set (map package_name ?us1)" by (rule name_in_names)
      moreover have "package_name u1 = package_name q" using u1 by (simp add: attempt_Some)
      ultimately have "package_name r \<in> set (map package_name ?us1)"
        unfolding nqr by (simp only:)
      with False show False by contradiction
    qed
    then have "find (\<lambda>u. package_name u = package_name r) (rev ?us2) = None"
      using find_None_names [of "package_name r" "rev ?us2"] by blast
    with False show ?thesis by (simp del: set_map)
  qed
qed

lemma updates_exclude_editable:
  "updates api t (exclude_editable pvs) = updates api t pvs"
  by (induction pvs)
     (auto simp: exclude_editable_def updates_Cons attempt_def split: option.splits sum.splits)

lemma selected_cases:
  obtains "selected packages w = exclude_editable (table w)"
      "\<And>v. selected packages v = exclude_editable (table v)"
    | p ps where "packages = Some (p # ps)" "\<And>v. selected packages v = p # ps"
proof (cases packages)
  case None
  then show ?thesis using that(1) by (simp add: selected_def)
next
  case (Some pvs)
  show ?thesis
  proof (cases pvs)
    case Nil
    with Some show ?thesis using that(1) by (simp add: selected_def)
  next
    case (Cons p ps)
    with Some show ?thesis using that(2) [of p ps] by (simp add: selected_def)
  qed
qed

lemma attempt_reconciled: "attempt api t (reconciled api t1 p) = attempt api t p"
  by (cases "query api (package_name p)")
     (simp_all add: reconciled_def attempt_def refreshed_def Let_def)

lemma updates_reconciled: "updates api t (map (reconciled api t1) pvs) = updates api t pvs"
  by (induction pvs) (simp_all add: updates_Cons attempt_reconciled split: option.splits)

lemma selected_reconciled:
  "updates api t (selected (map_option (map (reconciled api t1)) packages) v)
     = updates api t (selected packages v)"
proof (cases packages)
  case None
  then show ?thesis by (simp add: selected_def)
next
  case (Some pvs)
  show ?thesis
  proof (cases pvs)
    case Nil
    with Some show ?thesis by (simp add: selected_def)
  next
    case (Cons p ps)
    with Some show ?thesis
      using updates_reconciled [of api t t1 "p # ps"] by (simp add: selected_def)
  qed
qed

lemma refreshed_row_stamped:
  "r \<in> set (updates api t pvs) \<Longrightarrow> r\<lparr>checked_pypi_at := Some t\<rparr> = r"
  by (auto simp: updates_member refreshed_def Let_def dest!: attempt_Some)

text \<open>
  C3: idempotence of \<open>remote\<close> up to the time stamp. A second run of \<open>remote\<close> on the
  same argument against the same index leaves every record as the first run left it,
  except that \<open>checked_pypi_at\<close> of each row that the first run refreshed holds the
  time of the second run; when both runs read the same clock the two tables are equal.
  It makes no difference whether the second run is handed the records of the batch as
  they were or as the first run left them.
\<close>

theorem remote_twice:
  "table (snd (remote api packages ((snd (remote api packages w))\<lparr>clock := t\<rparr>)))
     = map (\<lambda>r. if package_name r
                      \<in> set (map package_name (updates api (clock w) (selected packages w)))
                 then r\<lparr>checked_pypi_at := Some t\<rparr> else r)
         (table (snd (remote api packages w)))
   \<and> (t = clock w \<longrightarrow>
        table (snd (remote api packages ((snd (remote api packages w))\<lparr>clock := t\<rparr>)))
          = table (snd (remote api packages w)))
   \<and> table (snd (remote api (map_option (map (reconciled api (clock w))) packages)
                 ((snd (remote api packages w))\<lparr>clock := t\<rparr>)))
       = table (snd (remote api packages ((snd (remote api packages w))\<lparr>clock := t\<rparr>)))"
proof -
  let ?us1 = "updates api (clock w) (selected packages w)"
  let ?w1 = "(snd (remote api packages w))\<lparr>clock := t\<rparr>"
  let ?stamp = "\<lambda>r. if package_name r \<in> set (map package_name ?us1)
                     then r\<lparr>checked_pypi_at := Some t\<rparr> else r"
  have t1: "table (snd (remote api packages w)) = fold save ?us1 (table w)"
    by (rule remote_table)
  have t2: "table (snd (remote api packages ?w1))
              = fold save (updates api t (selected packages ?w1)) (fold save ?us1 (table w))"
    by (simp add: remote_table t1)
  have a: "table (snd (remote api packages ?w1)) = map ?stamp (table (snd (remote api packages w)))"
  proof (cases rule: selected_cases [of packages w])
    case 1
    have sel: "selected packages v = exclude_editable (table v)" for v
      using 1(2) .
    show ?thesis
      using second_run_default [of api t "clock w" "table w"]
      by (simp add: t2 t1 sel updates_exclude_editable del: set_map)
  next
    case (2 p ps)
    have sel: "selected packages v = p # ps" for v
      using 2(2) .
    show ?thesis
      using second_run_explicit [of api t "p # ps" "clock w" "table w"]
      by (simp add: t2 t1 sel del: set_map)
  qed
  have b: "table (snd (remote api packages ?w1)) = table (snd (remote api packages w))"
    if "t = clock w"
  proof -
    have "?stamp r = r" if r: "r \<in> set (fold save ?us1 (table w))" for r
    proof (cases "package_name r \<in> set (map package_name ?us1)")
      case True
      then have "find (\<lambda>u. package_name u = package_name r) (rev ?us1) = Some r"
        using r by (rule fold_save_last [rotated])
      then have "r \<in> set ?us1" by (auto dest: find_Some_name)
      then have "r\<lparr>checked_pypi_at := Some (clock w)\<rparr> = r"
        by (rule refreshed_row_stamped)
      with True \<open>t = clock w\<close> show ?thesis by (simp del: set_map)
    next
      case False
      then show ?thesis by (simp del: set_map)
    qed
    then have "map ?stamp (fold save ?us1 (table w)) = fold save ?us1 (table w)"
      by (simp add: map_idI del: set_map)
    with a show ?thesis by (simp only: t1)
  qed
  have c: "table (snd (remote api (map_option (map (reconciled api (clock w))) packages) ?w1))
             = table (snd (remote api packages ?w1))"
    by (simp add: remote_table selected_reconciled)
  show ?thesis using a b c by blast
qed

theorem remote_twice_witness:
  "clock demo_world = 1
   \<and> table (snd (remote demo_api (Some [pv_requests, pv_flaky, pv_mylib])
        ((snd (remote demo_api (Some [pv_requests, pv_flaky, pv_mylib]) demo_world))
           \<lparr>clock := 1\<rparr>)))
     = table (snd (remote demo_api (Some [pv_requests, pv_flaky, pv_mylib]) demo_world))
   \<and> map checked_pypi_at
        (table (snd (remote demo_api (Some [pv_requests, pv_flaky, pv_mylib])
           ((snd (remote demo_api (Some [pv_requests, pv_flaky, pv_mylib]) demo_world))
              \<lparr>clock := 2\<rparr>))))
     = [Some 2, None, None, None]
   \<and> map diff_status
        (table (snd (remote demo_api (Some [pv_requests, pv_flaky, pv_mylib])
           ((snd (remote demo_api (Some [pv_requests, pv_flaky, pv_mylib]) demo_world))
              \<lparr>clock := 2\<rparr>))))
     = [Major, Unknown, Unknown, Unknown]"
proof -
  have c: "clock demo_world = 1" by (simp add: demo_defs)
  show ?thesis
    using c
      remote_twice [where api = demo_api and t = 1 and w = demo_world
                      and packages = "Some [pv_requests, pv_flaky, pv_mylib]"]
      remote_twice [where api = demo_api and t = 2 and w = demo_world
                      and packages = "Some [pv_requests, pv_flaky, pv_mylib]"]
    by (simp add: remote_defs updates_def attempt_def reconciled_def demo_defs)
qed

text \<open>
  Without the exception for \<open>checked_pypi_at\<close> the statement fails: the second run, one
  clock tick later, stamps the refreshed records anew, so the table differs from the
  one after the first run.
\<close>

theorem remote_twice_counterexample:
  "map checked_pypi_at (table (snd (remote demo_api None demo_world)))
     = [Some 1, None, None, Some 1]
   \<and> map checked_pypi_at
        (table (snd (remote demo_api None ((snd (remote demo_api None demo_world))\<lparr>clock := 2\<rparr>))))
     = [Some 2, None, None, Some 2]
   \<and> table (snd (remote demo_api None ((snd (remote demo_api None demo_world))\<lparr>clock := 2\<rparr>)))
     \<noteq> table (snd (remote demo_api None demo_world))"
  by (simp add: remote_defs demo_defs)

end
